theory Spec2Isabelle
  imports Main "HOL-Library.Word"
begin

section \<open>Data model of the command interpreter\<close>

text \<open>
  The embedding follows \<^verbatim>\<open>Assignment 2/src/command.c\<close>, \<^verbatim>\<open>parser.c\<close> and
  \<^verbatim>\<open>shell_builtins.c\<close>. The headers \<^verbatim>\<open>command.h\<close>, \<^verbatim>\<open>parser.h\<close> and
  \<^verbatim>\<open>utils.h\<close> are not among the sources; what the code takes from them is
  either a parameter of the model (the token classifiers, \<^verbatim>\<open>removeQuotes\<close>,
  \<^verbatim>\<open>tokenizeString\<close>) or fixed to its POSIX meaning (the three standard
  descriptors, the two ends of a pipe).

  Heap allocation (\<^verbatim>\<open>malloc\<close>, \<^verbatim>\<open>realloc\<close>, \<^verbatim>\<open>strdup\<close>) is taken to succeed.
  Strings are values: the duplicate made by \<^verbatim>\<open>COPY\<close> is the same value as its
  argument, and a \<^verbatim>\<open>char*\<close> that may be \<^verbatim>\<open>NULL\<close> is a \<open>string option\<close>.
\<close>

definition STDIN_FD :: int where "STDIN_FD = 0"
definition STDOUT_FD :: int where "STDOUT_FD = 1"
definition STDERR_FD :: int where "STDERR_FD = 2"

lemmas std_fd_defs = STDIN_FD_def STDOUT_FD_def STDERR_FD_def

text \<open>The registry of \<^verbatim>\<open>shell_builtins.c\<close> binds a name to one of six runners.\<close>

datatype ExecutionFunction = Cd | Pwd | ExitShell | History | Prompt | ExecuteProcess

text \<open>
  A cell of the \<^verbatim>\<open>char** args\<close> array: \<open>Uninit\<close> is memory that
  \<^verbatim>\<open>realloc\<close> handed out and nobody wrote yet, \<open>Null\<close> the \<^verbatim>\<open>NULL\<close> pointer.
\<close>

datatype cell = Uninit | Null | Str string

record SimpleCommand =
  commandName :: "string option"
  args :: "cell list option"
  argc :: nat
  inputFD :: int
  outputFD :: int
  stderrFD :: int
  noWait :: int
  execute :: "ExecutionFunction option"
  pid :: int

text \<open>
  A \<^verbatim>\<open>Command\<close> holds the array \<^verbatim>\<open>simpleCommands\<close> with its length
  \<^verbatim>\<open>nSimpleCommands\<close> (here one list) and the \<^verbatim>\<open>next\<close> pointer, which is the
  position in the chain: a \<^verbatim>\<open>CommandChain\<close> is the list of commands from
  \<^verbatim>\<open>head\<close> to \<^verbatim>\<open>tail\<close>.
\<close>

record Command =
  simpleCommands :: "SimpleCommand list"
  background :: bool
  chainingOperator :: "string option"

type_synonym CommandChain = "Command list"

definition initSimpleCommand :: SimpleCommand where
  "initSimpleCommand =
     \<lparr>commandName = None, args = None, argc = 0,
      inputFD = STDIN_FD, outputFD = STDOUT_FD, stderrFD = STDERR_FD,
      noWait = 0, execute = None, pid = -1\<rparr>"

definition initCommand :: Command where
  "initCommand = \<lparr>simpleCommands = [], background = False, chainingOperator = None\<rparr>"

definition initCommandChain :: CommandChain where
  "initCommandChain = []"

definition COPY :: "string option \<Rightarrow> string option" where
  "COPY p = (case p of None \<Rightarrow> None | Some str \<Rightarrow> Some str)"

subsection \<open>Setters\<close>

text \<open>
  The setters are modelled on objects that exist: the parser hands them freshly
  initialised structures, so their \<^verbatim>\<open>NULL\<close> guards do not fire there. Each
  returns the status of the C function and the updated object.
\<close>

definition addCommandToChain :: "CommandChain \<Rightarrow> Command \<Rightarrow> int \<times> CommandChain" where
  "addCommandToChain chain command = (0, chain @ [command])"

definition addSimpleCommand :: "Command \<Rightarrow> SimpleCommand \<Rightarrow> int \<times> Command" where
  "addSimpleCommand command simpleCommand =
     (0, command\<lparr>simpleCommands := simpleCommands command @ [simpleCommand]\<rparr>)"

text \<open>
  \<^verbatim>\<open>realloc(p, n * sizeof(char*))\<close>: the first cells keep their contents, the
  others are uninitialised.
\<close>

definition realloc_cells :: "cell list option \<Rightarrow> nat \<Rightarrow> cell list" where
  "realloc_cells p n =
     (case p of
        None \<Rightarrow> replicate n Uninit
      | Some xs \<Rightarrow> take n xs @ replicate (n - length xs) Uninit)"

definition pushArgs :: "string \<Rightarrow> SimpleCommand \<Rightarrow> int \<times> SimpleCommand" where
  "pushArgs arg simpleCommand =
     (let temp = realloc_cells (args simpleCommand) (argc simpleCommand + 2);
          temp1 = temp[argc simpleCommand := (case COPY (Some arg) of None \<Rightarrow> Null | Some a \<Rightarrow> Str a)];
          temp2 = temp1[argc simpleCommand + 1 := Null];
          sc = simpleCommand\<lparr>args := Some temp2, argc := argc simpleCommand + 1\<rparr>
      in (0, if argc sc = 1 then sc\<lparr>commandName := COPY (Some arg)\<rparr> else sc))"

section \<open>The operating system as the interpreter sees it\<close>

text \<open>
  The descriptor table maps an open descriptor to the object it refers to. A new
  descriptor is the lowest one not in use, below the limit of the process; a system
  call that fails returns \<open>None\<close> where the C call returns \<^verbatim>\<open>-1\<close>.
  Files in \<open>files\<close> exist and can be read; those in \<open>unwritable\<close> cannot be
  opened for writing. File contents are not part of the model.
\<close>

datatype open_mode = RdOnly | WrCreatTrunc | WrCreatAppend

datatype fobj = Terminal | File string open_mode | PipeRead nat | PipeWrite nat

record os =
  fdtab :: "int \<rightharpoonup> fobj"
  fd_limit :: nat
  files :: "string list"
  unwritable :: "string list"
  npipes :: nat

fun lowest_free :: "(int \<rightharpoonup> fobj) \<Rightarrow> nat \<Rightarrow> int \<Rightarrow> int option" where
  "lowest_free tab 0 fd = None"
| "lowest_free tab (Suc n) fd =
     (if tab fd = None then Some fd else lowest_free tab n (fd + 1))"

definition alloc_fd :: "os \<Rightarrow> int option" where
  "alloc_fd s = lowest_free (fdtab s) (fd_limit s) 0"

text \<open>\<^verbatim>\<open>pipe(pipeFD)\<close>: the result is \<open>(pipeFD[0], pipeFD[1])\<close>, the read end first.\<close>

definition pipe_call :: "os \<Rightarrow> (int \<times> int \<times> os) option" where
  "pipe_call s =
     (case alloc_fd s of
        None \<Rightarrow> None
      | Some r \<Rightarrow>
          let s1 = s\<lparr>fdtab := (fdtab s)(r \<mapsto> PipeRead (npipes s))\<rparr> in
          (case alloc_fd s1 of
             None \<Rightarrow> None
           | Some w \<Rightarrow>
               Some (r, w, s1\<lparr>fdtab := (fdtab s1)(w \<mapsto> PipeWrite (npipes s)),
                               npipes := Suc (npipes s)\<rparr>)))"

text \<open>
  \<^verbatim>\<open>open(name, flags, 0644)\<close>. The name is \<open>None\<close> when the parser passes the
  \<^verbatim>\<open>NULL\<close> that ends the token array; the call then fails.
\<close>

definition open_call :: "string option \<Rightarrow> open_mode \<Rightarrow> os \<Rightarrow> (int \<times> os) option" where
  "open_call name mode s =
     (case name of
        None \<Rightarrow> None
      | Some f \<Rightarrow>
          if mode = RdOnly \<and> f \<notin> set (files s) then None
          else if mode \<noteq> RdOnly \<and> f \<in> set (unwritable s) then None
          else (case alloc_fd s of
                  None \<Rightarrow> None
                | Some fd \<Rightarrow>
                    Some (fd, s\<lparr>fdtab := (fdtab s)(fd \<mapsto> File f mode),
                                 files := (if f \<in> set (files s) then files s else f # files s)\<rparr>)))"

definition close_call :: "int \<Rightarrow> os \<Rightarrow> os" where
  "close_call fd s = s\<lparr>fdtab := (fdtab s)(fd := None)\<rparr>"

definition dup_call :: "int \<Rightarrow> os \<Rightarrow> int option \<times> os" where
  "dup_call fd s =
     (case fdtab s fd of
        None \<Rightarrow> (None, s)
      | Some obj \<Rightarrow>
          (case alloc_fd s of
             None \<Rightarrow> (None, s)
           | Some fd' \<Rightarrow> (Some fd', s\<lparr>fdtab := (fdtab s)(fd' \<mapsto> obj)\<rparr>)))"

definition dup2_call :: "int \<Rightarrow> int \<Rightarrow> os \<Rightarrow> int option \<times> os" where
  "dup2_call oldfd newfd s =
     (case fdtab s oldfd of
        None \<Rightarrow> (None, s)
      | Some obj \<Rightarrow>
          if newfd < 0 \<or> int (fd_limit s) \<le> newfd then (None, s)
          else (Some newfd, s\<lparr>fdtab := (fdtab s)(newfd \<mapsto> obj)\<rparr>))"

section \<open>Interpreter state and the parameters of the model\<close>

text \<open>
  The history list is the sequence of the nodes' commands from \<^verbatim>\<open>head\<close> on; its
  \<^verbatim>\<open>size\<close> field counts the nodes (\<^verbatim>\<open>add_to_history\<close> and \<^verbatim>\<open>clean_history\<close>
  keep it so) and is the length of the list.
\<close>

record ShellState =
  originalStdoutFD :: int
  originalStdinFD :: int
  originalStderrFD :: int
  prompt_buffer :: string
  historyList :: "string list"

text \<open>
  The world of the running interpreter: the operating system, the global
  \<^verbatim>\<open>globalShellState\<close>, and what \<^verbatim>\<open>printf\<close> was given to write, each text with
  the object that descriptor 1 referred to at the time of the call.
\<close>

record world =
  sys :: os
  shellState :: ShellState
  written :: "(fobj option \<times> string) list"

text \<open>
  What a call does: it returns, or the interpreter process ends in it (\<^verbatim>\<open>exit\<close>,
  or a fault on a \<^verbatim>\<open>NULL\<close> pointer), or the model ran out of fuel before it
  returned.
\<close>

datatype 'a outcome = Return 'a | Exited int | Segfault | OutOfFuel

text \<open>
  The parameters: the token classifiers of \<^verbatim>\<open>parser.h\<close>, the helpers of
  \<^verbatim>\<open>utils.h\<close>, what \<^verbatim>\<open>glob\<close> finds in the file system, and what lies
  outside the interpreter:
  \<^item> \<open>fork_exec\<close> is \<^verbatim>\<open>fork\<close> seen from the parent, \<open>None\<close> when it fails and
    the child's process id otherwise; the child binds the stage's descriptors and
    runs the program;
  \<^item> \<open>waitpid_status\<close> is \<^verbatim>\<open>waitpid(pid, &status, 0)\<close> for the child of that
    stage, \<open>None\<close> when it fails and \<^verbatim>\<open>WEXITSTATUS(status)\<close> otherwise, with
    the world as the child left it;
  \<^item> \<open>run_builtin\<close> stands for the builtins \<^verbatim>\<open>cd\<close>, \<^verbatim>\<open>pwd\<close>, \<^verbatim>\<open>exit\<close> and
    \<^verbatim>\<open>prompt\<close>, which no property below looks into.
\<close>

record env =
  IS_PIPE :: "string \<Rightarrow> bool"
  IS_FILE_OUT_REDIR :: "string \<Rightarrow> bool"
  IS_APPEND :: "string \<Rightarrow> bool"
  IS_FILE_IN_REDIR :: "string \<Rightarrow> bool"
  IS_STDERR_REDIR :: "string \<Rightarrow> bool"
  IS_CHAINING_OPERATOR :: "string \<Rightarrow> bool"
  IS_BACKGROUND :: "string \<Rightarrow> bool"
  IGNORE :: "string \<Rightarrow> bool"
  removeQuotes :: "string \<Rightarrow> string"
  glob_matches :: "os \<Rightarrow> string \<Rightarrow> string list option"
  tokenizeString :: "string \<Rightarrow> char \<Rightarrow> string list"
  fork_exec :: "SimpleCommand \<Rightarrow> world \<Rightarrow> int option \<times> world"
  waitpid_status :: "SimpleCommand \<Rightarrow> int \<Rightarrow> world \<Rightarrow> int option \<times> world"
  run_builtin :: "ExecutionFunction \<Rightarrow> SimpleCommand \<Rightarrow> world \<Rightarrow> (int \<times> world) outcome"

section \<open>The parser\<close>

definition commandRegistry :: "(string \<times> ExecutionFunction) list" where
  "commandRegistry =
     [(''cd'', Cd), (''pwd'', Pwd), (''exit'', ExitShell), (''history'', History),
      (''prompt'', Prompt)]"

definition getExecutionFunction :: "string \<Rightarrow> ExecutionFunction" where
  "getExecutionFunction name =
     (case map_of commandRegistry name of Some f \<Rightarrow> f | None \<Rightarrow> ExecuteProcess)"

text \<open>
  \<^verbatim>\<open>glob(pattern, GLOB_NOCHECK | GLOB_TILDE, NULL, &globbuf)\<close>: \<open>None\<close> is a non-zero
  return; with \<^verbatim>\<open>GLOB_NOCHECK\<close> a pattern that matches nothing is returned itself.
\<close>

definition glob_call :: "env \<Rightarrow> os \<Rightarrow> string \<Rightarrow> string list option" where
  "glob_call E s pattern =
     (case glob_matches E s pattern of
        None \<Rightarrow> None
      | Some [] \<Rightarrow> Some [pattern]
      | Some (p # ps) \<Rightarrow> Some (p # ps))"

text \<open>The loop over \<^verbatim>\<open>globbuf.gl_pathv\<close>, which stops at the first failing push.\<close>

fun pushPaths :: "string list \<Rightarrow> SimpleCommand \<Rightarrow> int \<times> SimpleCommand" where
  "pushPaths [] sc = (0, sc)"
| "pushPaths (p # ps) sc =
     (case pushArgs p sc of (r, sc') \<Rightarrow> if r \<noteq> 0 then (r, sc') else pushPaths ps sc')"

datatype parse_error =
    PipeWithoutCommand | PipeAfterRedirection | PipeFailed
  | OutRedirWithoutCommand | OutRedirTwice | OutOpenFailed
  | InRedirTwice | InOpenFailed
  | ErrRedirTwice | ErrOpenFailed
  | PushFailed | GlobFailed

text \<open>
  \<^verbatim>\<open>do { fileNameToken = tokens[++i]; } while (IGNORE(fileNameToken));\<close> on the tokens
  after the operator: the file name (\<open>None\<close> for the final \<^verbatim>\<open>NULL\<close>, which no
  classifier accepts) and the tokens after it.
\<close>

definition fileNameToken :: "env \<Rightarrow> string list \<Rightarrow> string option \<times> string list" where
  "fileNameToken E ts =
     (case dropWhile (IGNORE E) ts of [] \<Rightarrow> (None, []) | f # rest \<Rightarrow> (Some f, rest))"

type_synonym parse_state = "Command \<times> SimpleCommand \<times> string list"

text \<open>
  The body of the inner \<^verbatim>\<open>for\<close> loop of \<^verbatim>\<open>parseTokens\<close> at a token \<open>t\<close> that
  is neither \<^verbatim>\<open>NULL\<close> nor a chaining operator, followed by the tokens \<open>ts\<close>. The
  result holds the command and the stage under construction and the tokens the loop
  goes on with. (The loop's first branch, for a \<^verbatim>\<open>NULL\<close> token, cannot be taken:
  the loop condition has excluded it.) Descriptors opened before an error stay open.
\<close>

definition parseStep ::
  "env \<Rightarrow> string \<Rightarrow> string list \<Rightarrow> Command \<Rightarrow> SimpleCommand \<Rightarrow> os
     \<Rightarrow> (parse_error + parse_state) \<times> os" where
  "parseStep E t ts command sc s =
    (if IS_PIPE E t then
       (case commandName sc of
          None \<Rightarrow> (Inl PipeWithoutCommand, s)
        | Some name \<Rightarrow>
            if outputFD sc \<noteq> STDOUT_FD then (Inl PipeAfterRedirection, s)
            else (case pipe_call s of
                    None \<Rightarrow> (Inl PipeFailed, s)
                  | Some (pipe_read_end, pipe_write_end, s') \<Rightarrow>
                      let sc1 = sc\<lparr>outputFD := pipe_write_end,
                                    execute := Some (getExecutionFunction name)\<rparr>;
                          command1 = snd (addSimpleCommand command sc1);
                          sc2 = initSimpleCommand\<lparr>inputFD := pipe_read_end\<rparr>
                      in (Inr (command1, sc2, ts), s')))
     else if IS_FILE_OUT_REDIR E t then
       (if commandName sc = None then (Inl OutRedirWithoutCommand, s)
        else if outputFD sc \<noteq> STDOUT_FD then (Inl OutRedirTwice, s)
        else (case fileNameToken E ts of (name, rest) \<Rightarrow>
               (case open_call name (if IS_APPEND E t then WrCreatAppend else WrCreatTrunc) s of
                  None \<Rightarrow> (Inl OutOpenFailed, s)
                | Some (fileFD, s') \<Rightarrow> (Inr (command, sc\<lparr>outputFD := fileFD\<rparr>, rest), s'))))
     else if IS_FILE_IN_REDIR E t then
       (if inputFD sc \<noteq> STDIN_FD then (Inl InRedirTwice, s)
        else (case fileNameToken E ts of (name, rest) \<Rightarrow>
               (case open_call name RdOnly s of
                  None \<Rightarrow> (Inl InOpenFailed, s)
                | Some (fileFD, s') \<Rightarrow> (Inr (command, sc\<lparr>inputFD := fileFD\<rparr>, rest), s'))))
     else if IS_STDERR_REDIR E t then
       (if stderrFD sc \<noteq> STDERR_FD then (Inl ErrRedirTwice, s)
        else (case fileNameToken E ts of (name, rest) \<Rightarrow>
               (case open_call name WrCreatTrunc s of
                  None \<Rightarrow> (Inl ErrOpenFailed, s)
                | Some (fileFD, s') \<Rightarrow> (Inr (command, sc\<lparr>stderrFD := fileFD\<rparr>, rest), s'))))
     else if IGNORE E t then (Inr (command, sc, ts), s)
     else if commandName sc = None \<and> t \<noteq> [] \<and> hd t = CHR ''!'' \<and> length t > 1 then
       (case pushArgs ''history'' sc of (r1, sc1) \<Rightarrow>
          if r1 \<noteq> 0 then (Inl PushFailed, s)
          else (case pushArgs (tl t) sc1 of (r2, sc2) \<Rightarrow>
                  if r2 \<noteq> 0 then (Inl PushFailed, s)
                  else (Inr (command, sc2, ts), s)))
     else
       (case glob_call E s (removeQuotes E t) of
          None \<Rightarrow> (Inl GlobFailed, s)
        | Some paths \<Rightarrow>
            (case pushPaths paths sc of (r, sc') \<Rightarrow>
               if r \<noteq> 0 then (Inl PushFailed, s) else (Inr (command, sc', ts), s))))"

lemma length_fileNameToken:
  "fileNameToken E ts = (name, rest) \<Longrightarrow> length rest \<le> length ts"
proof -
  assume a: "fileNameToken E ts = (name, rest)"
  have "length (dropWhile (IGNORE E) ts) \<le> length ts"
    by (rule length_dropWhile_le)
  with a show ?thesis
    by (auto simp: fileNameToken_def split: list.splits)
qed

lemma length_snd_fileNameToken: "length (snd (fileNameToken E ts)) \<le> length ts"
  by (rule length_fileNameToken [OF surjective_pairing])

lemma length_parseStep:
  "parseStep E t ts command sc s = (Inr (command', sc', rest), s') \<Longrightarrow> length rest \<le> length ts"
  by (auto simp: parseStep_def Let_def
      split: if_splits option.splits prod.splits dest: length_fileNameToken)

text \<open>
  The inner \<^verbatim>\<open>for\<close> loop: it runs until the token is \<^verbatim>\<open>NULL\<close> (the end of the
  list) or a chaining operator, and leaves the index there.
\<close>

function parseSimpleCommands ::
  "env \<Rightarrow> string list \<Rightarrow> Command \<Rightarrow> SimpleCommand \<Rightarrow> os
     \<Rightarrow> (parse_error + parse_state) \<times> os" where
  "parseSimpleCommands E [] command sc s = (Inr (command, sc, []), s)"
| "parseSimpleCommands E (t # ts) command sc s =
     (if IS_CHAINING_OPERATOR E t then (Inr (command, sc, t # ts), s)
      else (case parseStep E t ts command sc s of
              (Inl e, s') \<Rightarrow> (Inl e, s')
            | (Inr (command', sc', rest), s') \<Rightarrow> parseSimpleCommands E rest command' sc' s'))"
  by pat_completeness auto
termination
  by (relation "measure (\<lambda>(E, ts, command, sc, s). length ts)")
     (auto dest: length_parseStep [OF sym] simp: le_imp_less_Suc)

lemma length_parseSimpleCommands:
  "parseSimpleCommands E ts command sc s = (Inr (command', sc', rest), s')
     \<Longrightarrow> length rest \<le> length ts"
proof (induction E ts command sc s rule: parseSimpleCommands.induct)
  case (1 E command sc s)
  then show ?case by simp
next
  case (2 E t ts command sc s)
  show ?case
  proof (cases "IS_CHAINING_OPERATOR E t")
    case True
    with "2.prems" show ?thesis by auto
  next
    case False
    with "2.prems" obtain c1 sc1 r1 s1 where
      step: "parseStep E t ts command sc s = (Inr (c1, sc1, r1), s1)" and
      loop: "parseSimpleCommands E r1 c1 sc1 s1 = (Inr (command', sc', rest), s')"
      by (auto split: prod.splits sum.splits)
    from "2.IH" [OF False step [symmetric] refl refl refl] loop
    have "length rest \<le> length r1" by simp
    with length_parseStep [OF step] show ?thesis by simp
  qed
qed

text \<open>
  The end of one pass of the outer loop: the stage under construction joins the
  command when it has a name, the token at the index (\<^verbatim>\<open>NULL\<close> at the end of the
  list) is copied into \<^verbatim>\<open>chainingOperator\<close>, and \<^verbatim>\<open>background\<close> is set for the
  background marker.
\<close>

definition closeCommand :: "env \<Rightarrow> Command \<Rightarrow> SimpleCommand \<Rightarrow> string list \<Rightarrow> Command" where
  "closeCommand E command sc rest =
     (let command1 =
            (case commandName sc of
               None \<Rightarrow> command
             | Some name \<Rightarrow>
                 snd (addSimpleCommand command (sc\<lparr>execute := Some (getExecutionFunction name)\<rparr>)));
          command2 = command1\<lparr>chainingOperator := COPY (case rest of [] \<Rightarrow> None | t # _ \<Rightarrow> Some t)\<rparr>
      in (case chainingOperator command2 of
            None \<Rightarrow> command2
          | Some opr \<Rightarrow> if IS_BACKGROUND E opr then command2\<lparr>background := True\<rparr> else command2))"

text \<open>
  The outer \<^verbatim>\<open>while\<close> loop; \<open>chain\<close> is the chain built so far. The index moves past
  the chaining operator it stopped at.
\<close>

function parseTokens_loop ::
  "env \<Rightarrow> string list \<Rightarrow> CommandChain \<Rightarrow> os \<Rightarrow> (parse_error + CommandChain) \<times> os" where
  "parseTokens_loop E [] chain s = (Inr chain, s)"
| "parseTokens_loop E (t # ts) chain s =
     (case parseSimpleCommands E (t # ts) initCommand initSimpleCommand s of
        (Inl e, s') \<Rightarrow> (Inl e, s')
      | (Inr (command, sc, rest), s') \<Rightarrow>
          parseTokens_loop E (case rest of [] \<Rightarrow> [] | _ # r \<Rightarrow> r)
            (snd (addCommandToChain chain (closeCommand E command sc rest))) s')"
  by pat_completeness auto
termination
  by (relation "measure (\<lambda>(E, ts, chain, s). length ts)")
     (auto dest!: length_parseSimpleCommands [OF sym] split: list.splits
        simp del: parseSimpleCommands.simps)

definition parseTokens :: "env \<Rightarrow> string list \<Rightarrow> os \<Rightarrow> (parse_error + CommandChain) \<times> os" where
  "parseTokens E tokens s = parseTokens_loop E tokens initCommandChain s"

section \<open>The execution engine\<close>

text \<open>
  A runner is what the call \<^verbatim>\<open>simpleCommand->execute(simpleCommand)\<close> does to the
  world and returns. The fields a runner writes into its stage (\<^verbatim>\<open>pid\<close>) and the
  \<^verbatim>\<open>noWait\<close> flag written by \<^verbatim>\<open>executeCommand\<close> are read by nobody after the
  call, so the stage is passed to the runner with the flag already set and is not
  returned.
\<close>

type_synonym runner = "SimpleCommand \<Rightarrow> world \<Rightarrow> (int \<times> world) outcome"

definition close_fd :: "int \<Rightarrow> world \<Rightarrow> world" where
  "close_fd fd w = w\<lparr>sys := close_call fd (sys w)\<rparr>"

text \<open>
  The two \<^verbatim>\<open>close\<close> statements at the end of the loop body of
  \<^verbatim>\<open>executeCommand\<close>, reached when the stage returned status 0.
\<close>

definition closeDescriptors :: "SimpleCommand \<Rightarrow> world \<Rightarrow> world" where
  "closeDescriptors sc w1 =
     (let w2 = (if inputFD sc \<noteq> STDIN_FD then close_fd (inputFD sc) w1 else w1)
      in if outputFD sc \<noteq> STDOUT_FD then close_fd (outputFD sc) w2 else w2)"

text \<open>The \<^verbatim>\<open>for\<close> loop of \<^verbatim>\<open>executeCommand\<close> over the stages not yet run.\<close>

fun executeSimpleCommands ::
  "runner \<Rightarrow> bool \<Rightarrow> SimpleCommand list \<Rightarrow> world \<Rightarrow> (int \<times> world) outcome" where
  "executeSimpleCommands run bg [] w = Return (0, w)"
| "executeSimpleCommands run bg (simpleCommand # rest) w =
     (let sc = (if bg then simpleCommand\<lparr>noWait := 1\<rparr> else simpleCommand) in
      case commandName sc of
        None \<Rightarrow> Return (-1, w)
      | Some name \<Rightarrow>
          (case run sc w of
             Return (status, w1) \<Rightarrow>
               if status \<noteq> 0 then Return (status, w1)
               else
                 executeSimpleCommands run bg rest (closeDescriptors sc w1)
           | Exited n \<Rightarrow> Exited n
           | Segfault \<Rightarrow> Segfault
           | OutOfFuel \<Rightarrow> OutOfFuel))"

definition executeCommand :: "runner \<Rightarrow> Command \<Rightarrow> world \<Rightarrow> (int \<times> world) outcome" where
  "executeCommand run command w =
     (if simpleCommands command = [] then Return (-1, w)
      else executeSimpleCommands run (background command) (simpleCommands command) w)"

text \<open>The \<^verbatim>\<open>while\<close> loop of \<^verbatim>\<open>executeCommandChain\<close> with its \<^verbatim>\<open>lastStatus\<close>.\<close>

fun executeCommands ::
  "runner \<Rightarrow> int \<Rightarrow> Command list \<Rightarrow> world \<Rightarrow> (int \<times> world) outcome" where
  "executeCommands run lastStatus [] w = Return (lastStatus, w)"
| "executeCommands run lastStatus (command # next) w =
     (case executeCommand run command w of
        Return (status, w') \<Rightarrow> executeCommands run status next w'
      | Exited n \<Rightarrow> Exited n
      | Segfault \<Rightarrow> Segfault
      | OutOfFuel \<Rightarrow> OutOfFuel)"

text \<open>The chain is \<open>None\<close> when the parser returned \<^verbatim>\<open>NULL\<close>.\<close>

definition executeCommandChain ::
  "runner \<Rightarrow> CommandChain option \<Rightarrow> world \<Rightarrow> (int \<times> world) outcome" where
  "executeCommandChain run chain w =
     (case chain of
        None \<Rightarrow> Return (-1, w)
      | Some commands \<Rightarrow> executeCommands run 0 commands w)"

section \<open>The history builtin\<close>

text \<open>
  \<^verbatim>\<open>get_command\<close>: the loop walks the nodes with a 32-bit counter until the counter
  equals the index or the nodes end; the function then reads \<^verbatim>\<open>curr->command\<close>,
  which faults when \<^verbatim>\<open>curr\<close> is \<^verbatim>\<open>NULL\<close>.
\<close>

fun get_command_loop :: "string list \<Rightarrow> 32 word \<Rightarrow> 32 word \<Rightarrow> string option" where
  "get_command_loop [] ctr index = None"
| "get_command_loop (command # next) ctr index =
     (if ctr \<noteq> index then get_command_loop next (ctr + 1) index else Some command)"

definition get_command :: "string list \<Rightarrow> 32 word \<Rightarrow> string option outcome" where
  "get_command list index =
     (if unat index > length list \<or> list = [] then Return None
      else (case get_command_loop list 1 index of
              None \<Rightarrow> Segfault
            | Some command \<Rightarrow> Return (Some command)))"

text \<open>
  \<^verbatim>\<open>strncmp(command, prefix, strlen(prefix)) == 0\<close> holds when the first
  \<^verbatim>\<open>strlen(prefix)\<close> characters of the command are the prefix.
\<close>

definition find_last_command_with_prefix :: "string list \<Rightarrow> string \<Rightarrow> string option" where
  "find_last_command_with_prefix list pre =
     fold (\<lambda>command lastCommand.
             if take (length pre) command = pre then Some command else lastCommand)
       list None"

text \<open>
  \<^verbatim>\<open>(unsigned int) atoi(s)\<close> for a string of decimal digits, as the C library
  computes it on a 64-bit system: the value is clamped to \<^verbatim>\<open>LONG_MAX\<close> and cut to
  its low 32 bits.
\<close>

definition digit_value :: "char \<Rightarrow> int" where
  "digit_value c = of_char c - 48"

definition decimal :: "string \<Rightarrow> int" where
  "decimal str = foldl (\<lambda>acc c. 10 * acc + digit_value c) 0 str"

definition atoi_unsigned :: "string \<Rightarrow> 32 word" where
  "atoi_unsigned str = word_of_int (min (decimal str) (2 ^ 63 - 1))"

text \<open>\<^verbatim>\<open>strspn(s, "0123456789") == strlen(s)\<close>\<close>

definition all_digits :: "string \<Rightarrow> bool" where
  "all_digits str = list_all (\<lambda>c. c \<in> set ''0123456789'') str"

text \<open>
  \<^verbatim>\<open>printf\<close>: the text is recorded with the object that descriptor 1 refers to at
  the time of the call, as for an unbuffered stream. The buffer of the C library,
  which may hold the text back until a later write, is not part of the model; no
  property below depends on where a text lands.
\<close>

definition emit :: "string \<Rightarrow> world \<Rightarrow> world" where
  "emit txt w = w\<lparr>written := written w @ [(fdtab (sys w) STDOUT_FD, txt)]\<rparr>"

fun show_nat :: "nat \<Rightarrow> string" where
  "show_nat n =
     (if n < 10 then [char_of (48 + n)] else show_nat (n div 10) @ [char_of (48 + n mod 10)])"

declare show_nat.simps [simp del]

text \<open>
  One standard stream of \<^verbatim>\<open>setUpFD\<close>: save a duplicate of the stream, put the
  stage's descriptor in its place and close the stage's descriptor. \<open>save\<close> stores
  into the field of the shell state that belongs to the stream. The result is
  \<open>False\<close> when \<^verbatim>\<open>dup2\<close> failed.
\<close>

definition setUpStream ::
  "int \<Rightarrow> int \<Rightarrow> (int \<Rightarrow> ShellState \<Rightarrow> ShellState) \<Rightarrow> world \<Rightarrow> bool \<times> world" where
  "setUpStream fd std save w =
     (if fd \<noteq> std then
        (case dup_call std (sys w) of (saved, s1) \<Rightarrow>
           let w1 = w\<lparr>sys := s1,
                       shellState := save (case saved of None \<Rightarrow> -1 | Some d \<Rightarrow> d) (shellState w)\<rparr>
           in (case dup2_call fd std (sys w1) of
                 (None, s2) \<Rightarrow> (False, w1\<lparr>sys := s2\<rparr>)
               | (Some _, s2) \<Rightarrow> (True, w1\<lparr>sys := close_call fd s2\<rparr>)))
      else (True, w))"

definition setUpFD :: "int \<Rightarrow> int \<Rightarrow> int \<Rightarrow> world \<Rightarrow> int \<times> world" where
  "setUpFD inFD outFD errFD w =
     (case setUpStream inFD STDIN_FD (\<lambda>d st. st\<lparr>originalStdinFD := d\<rparr>) w of
        (False, w1) \<Rightarrow> (-1, w1)
      | (True, w1) \<Rightarrow>
          (case setUpStream outFD STDOUT_FD (\<lambda>d st. st\<lparr>originalStdoutFD := d\<rparr>) w1 of
             (False, w2) \<Rightarrow> (-1, w2)
           | (True, w2) \<Rightarrow>
               (case setUpStream errFD STDERR_FD (\<lambda>d st. st\<lparr>originalStderrFD := d\<rparr>) w2 of
                  (False, w3) \<Rightarrow> (-1, w3)
                | (True, w3) \<Rightarrow> (0, w3))))"

text \<open>One stream of \<^verbatim>\<open>resetFD\<close>; a failing \<^verbatim>\<open>dup2\<close> ends the interpreter.\<close>

definition resetStream :: "int \<Rightarrow> int \<Rightarrow> world \<Rightarrow> world outcome" where
  "resetStream original std w =
     (if original \<noteq> std then
        (case dup2_call original std (sys w) of
           (None, s1) \<Rightarrow> Exited 1
         | (Some _, s1) \<Rightarrow> Return (w\<lparr>sys := s1\<rparr>))
      else Return w)"

definition resetFD :: "world \<Rightarrow> world outcome" where
  "resetFD w =
     (case resetStream (originalStdinFD (shellState w)) STDIN_FD w of
        Return w1 \<Rightarrow>
          (case resetStream (originalStdoutFD (shellState w1)) STDOUT_FD w1 of
             Return w2 \<Rightarrow> resetStream (originalStderrFD (shellState w2)) STDERR_FD w2
           | Exited n \<Rightarrow> Exited n | Segfault \<Rightarrow> Segfault | OutOfFuel \<Rightarrow> OutOfFuel)
      | Exited n \<Rightarrow> Exited n | Segfault \<Rightarrow> Segfault | OutOfFuel \<Rightarrow> OutOfFuel)"

text \<open>The listing loop of \<^verbatim>\<open>history\<close>, one line \<^verbatim>\<open>"%d %s\n"\<close> per node.\<close>

fun print_history :: "nat \<Rightarrow> string list \<Rightarrow> world \<Rightarrow> world" where
  "print_history i [] w = w"
| "print_history i (command # next) w =
     print_history (i + 1) next (emit (show_nat i @ '' '' @ command @ [CHR 0x0A]) w)"

text \<open>\<^verbatim>\<open>simpleCommand->args[1]\<close> as a string; \<open>None\<close> when there is no string to read.\<close>

definition arg1 :: "SimpleCommand \<Rightarrow> string option" where
  "arg1 sc =
     (case args sc of
        None \<Rightarrow> None
      | Some cells \<Rightarrow>
          if 1 < length cells then (case cells ! 1 of Str a \<Rightarrow> Some a | _ \<Rightarrow> None) else None)"

text \<open>
  The lookup of \<^verbatim>\<open>history\<close> with an argument: the entry, or \<open>None\<close> with the
  message of the failing branch.
\<close>

definition history_lookup :: "string list \<Rightarrow> string \<Rightarrow> (string + string) outcome" where
  "history_lookup list a =
     (if all_digits a then
        (case get_command list (atoi_unsigned a) of
           Return p \<Rightarrow>
             (case COPY p of
                None \<Rightarrow> Return (Inl ''history: invalid index'')
              | Some input \<Rightarrow> Return (Inr input))
         | Exited n \<Rightarrow> Exited n | Segfault \<Rightarrow> Segfault | OutOfFuel \<Rightarrow> OutOfFuel)
      else
        (case COPY (find_last_command_with_prefix list a) of
           None \<Rightarrow> Return (Inl ''history: no matching command found'')
         | Some input \<Rightarrow> Return (Inr input)))"

definition chain_pointer :: "parse_error + CommandChain \<Rightarrow> CommandChain option" where
  "chain_pointer r = (case r of Inl e \<Rightarrow> None | Inr chain \<Rightarrow> Some chain)"

text \<open>
  The builtin. \<open>exec\<close> is \<^verbatim>\<open>executeCommandChain\<close> with the runners it reaches;
  \<open>run_stage\<close> below ties the knot.
\<close>

definition history ::
  "(CommandChain option \<Rightarrow> world \<Rightarrow> (int \<times> world) outcome) \<Rightarrow> env
     \<Rightarrow> SimpleCommand \<Rightarrow> world \<Rightarrow> (int \<times> world) outcome" where
  "history exec E simpleCommand w =
     (if argc simpleCommand > 2 then
        Return (-1, emit (''history: Too many arguments'' @ [CHR 0x0A]) w)
      else
        (case setUpFD (inputFD simpleCommand) (outputFD simpleCommand) (stderrFD simpleCommand) w of
           (r, w1) \<Rightarrow>
             if r \<noteq> 0 then Return (-1, w1)
             else if argc simpleCommand = 1 then
               (case resetFD (print_history 1 (historyList (shellState w1)) w1) of
                  Return w2 \<Rightarrow> Return (0, w2)
                | Exited n \<Rightarrow> Exited n | Segfault \<Rightarrow> Segfault | OutOfFuel \<Rightarrow> OutOfFuel)
             else
               (case arg1 simpleCommand of
                  None \<Rightarrow> Segfault
                | Some a \<Rightarrow>
                    (case history_lookup (historyList (shellState w1)) a of
                       Return (Inl message) \<Rightarrow> Return (-1, emit (message @ [CHR 0x0A]) w1)
                     | Return (Inr input) \<Rightarrow>
                         (case parseTokens E (tokenizeString E input CHR '' '') (sys w1) of
                            (parsed, s2) \<Rightarrow>
                              (case exec (chain_pointer parsed) (w1\<lparr>sys := s2\<rparr>) of
                                 Return (status, w3) \<Rightarrow> Return (0, w3)
                               | Exited n \<Rightarrow> Exited n
                               | Segfault \<Rightarrow> Segfault
                               | OutOfFuel \<Rightarrow> OutOfFuel))
                     | Exited n \<Rightarrow> Exited n | Segfault \<Rightarrow> Segfault | OutOfFuel \<Rightarrow> OutOfFuel))))"

text \<open>
  \<^verbatim>\<open>executeProcess\<close>, the parent's side: it waits for the child unless the stage
  is marked \<^verbatim>\<open>noWait\<close>. (The text of the \<^verbatim>\<open>waitpid\<close> diagnostic depends on
  \<^verbatim>\<open>errno\<close> and is left out.)
\<close>

definition executeProcess :: "env \<Rightarrow> runner" where
  "executeProcess E simpleCommand w =
     (case fork_exec E simpleCommand w of
        (None, w1) \<Rightarrow> Return (-1, w1)
      | (Some child, w1) \<Rightarrow>
          if noWait simpleCommand = 0 then
            (case waitpid_status E simpleCommand child w1 of
               (None, w2) \<Rightarrow> Return (-1, w2)
             | (Some status, w2) \<Rightarrow>
                 if status \<noteq> 0 then Return (status, w2) else Return (0, w2))
          else Return (0, w1))"

text \<open>
  The call through the \<^verbatim>\<open>execute\<close> pointer of a stage. The fuel bounds how deep
  \<^verbatim>\<open>history\<close> may re-enter the interpreter: an entry that refers to itself never
  returns.
\<close>

fun run_stage :: "nat \<Rightarrow> env \<Rightarrow> runner" where
  "run_stage 0 E sc w = OutOfFuel"
| "run_stage (Suc n) E sc w =
     (case execute sc of
        None \<Rightarrow> Segfault
      | Some History \<Rightarrow> history (executeCommandChain (run_stage n E)) E sc w
      | Some ExecuteProcess \<Rightarrow> executeProcess E sc w
      | Some f \<Rightarrow> run_builtin E f sc w)"

text \<open>
  One pass of the loop of \<^verbatim>\<open>main\<close> on a tokenized line: parse, then execute what
  the parser returned.
\<close>

definition runLine :: "nat \<Rightarrow> env \<Rightarrow> string list \<Rightarrow> world \<Rightarrow> (int \<times> world) outcome" where
  "runLine n E tokens w =
     (case parseTokens E tokens (sys w) of
        (parsed, s) \<Rightarrow> executeCommandChain (run_stage n E) (chain_pointer parsed) (w\<lparr>sys := s\<rparr>))"

definition returned :: "'a outcome \<Rightarrow> 'a option" where
  "returned r = (case r of Return x \<Rightarrow> Some x | _ \<Rightarrow> None)"

section \<open>A sample environment\<close>

text \<open>
  Modelled from the spec: the token classifiers and \<^verbatim>\<open>removeQuotes\<close> (headers
  \<^verbatim>\<open>parser.h\<close>, \<^verbatim>\<open>utils.h\<close>) and the tokenizer are missing from the sources.
  The spec names a pipe, output redirection with an append variant, input and stderr
  redirection, the chaining operators (sequencing, background, logical), an ignorable
  blank token, a content-preserving strip of quote characters and a tokenizer that
  splits a line at a delimiter. The sample environment gives them their usual shell
  spelling. The general theorems below hold for every environment; the sample one
  serves to run the model on concrete lines.
\<close>

fun split_tokens :: "char \<Rightarrow> string \<Rightarrow> string \<Rightarrow> string list" where
  "split_tokens d acc [] = [rev acc]"
| "split_tokens d acc (c # cs) =
     (if c = d then rev acc # split_tokens d [] cs else split_tokens d (c # acc) cs)"

text \<open>
  The sample outside world: \<^verbatim>\<open>exit\<close> ends the interpreter and the other builtins
  succeed; \<^verbatim>\<open>fork\<close> succeeds, every program writes its name when it starts, and
  the program \<^verbatim>\<open>false\<close> exits with status 1, every other one with status 0.
\<close>

definition sample_builtin :: "ExecutionFunction \<Rightarrow> runner" where
  "sample_builtin f sc w = (if f = ExitShell then Exited 0 else Return (0, w))"

definition sample_fork :: "SimpleCommand \<Rightarrow> world \<Rightarrow> int option \<times> world" where
  "sample_fork sc w =
     (Some 100, emit (case commandName sc of None \<Rightarrow> [] | Some name \<Rightarrow> name) w)"

definition sample_waitpid :: "SimpleCommand \<Rightarrow> int \<Rightarrow> world \<Rightarrow> int option \<times> world" where
  "sample_waitpid sc child w = (Some (if commandName sc = Some ''false'' then 1 else 0), w)"

definition sample_env :: env where
  "sample_env =
     \<lparr>IS_PIPE = (\<lambda>t. t = ''|''),
      IS_FILE_OUT_REDIR = (\<lambda>t. t = ''>'' \<or> t = ''>>''),
      IS_APPEND = (\<lambda>t. t = ''>>''),
      IS_FILE_IN_REDIR = (\<lambda>t. t = ''<''),
      IS_STDERR_REDIR = (\<lambda>t. t = ''2>''),
      IS_CHAINING_OPERATOR = (\<lambda>t. t = '';'' \<or> t = ''&'' \<or> t = ''&&'' \<or> t = ''||''),
      IS_BACKGROUND = (\<lambda>t. t = ''&''),
      IGNORE = (\<lambda>t. t = ''''),
      removeQuotes = filter (\<lambda>c. c \<noteq> CHR 0x22 \<and> c \<noteq> CHR 0x27),
      glob_matches = (\<lambda>s pattern. Some []),
      tokenizeString = (\<lambda>str d. split_tokens d [] str),
      fork_exec = sample_fork,
      waitpid_status = sample_waitpid,
      run_builtin = sample_builtin\<rparr>"

definition sample_os :: os where
  "sample_os =
     \<lparr>fdtab = [STDIN_FD \<mapsto> Terminal, STDOUT_FD \<mapsto> Terminal, STDERR_FD \<mapsto> Terminal],
      fd_limit = 16, files = [''in.txt''], unwritable = [], npipes = 0\<rparr>"

definition sample_world :: "string list \<Rightarrow> world" where
  "sample_world entries =
     \<lparr>sys = sample_os,
      shellState = \<lparr>originalStdoutFD = STDOUT_FD, originalStdinFD = STDIN_FD,
                    originalStderrFD = STDERR_FD, prompt_buffer = ''%'',
                    historyList = entries\<rparr>,
      written = []\<rparr>"

text \<open>A stage as the parser builds it from one word, with the given descriptors.\<close>

definition sample_stage :: "string \<Rightarrow> int \<Rightarrow> int \<Rightarrow> SimpleCommand" where
  "sample_stage name fd_in fd_out =
     (snd (pushArgs name initSimpleCommand))
       \<lparr>inputFD := fd_in, outputFD := fd_out, execute := Some (getExecutionFunction name)\<rparr>"

section \<open>Notions used to state the properties\<close>

text \<open>
  A token that none of the tests before the two word branches of the parser's loop
  accepts: a bare word.
\<close>

definition plain_word :: "env \<Rightarrow> string \<Rightarrow> bool" where
  "plain_word E t =
     (\<not> IS_CHAINING_OPERATOR E t \<and> \<not> IS_PIPE E t \<and> \<not> IS_FILE_OUT_REDIR E t
      \<and> \<not> IS_FILE_IN_REDIR E t \<and> \<not> IS_STDERR_REDIR E t \<and> \<not> IGNORE E t)"

text \<open>A token that the loop skips: ignorable, and no operator.\<close>

definition ignorable :: "env \<Rightarrow> string \<Rightarrow> bool" where
  "ignorable E t =
     (IGNORE E t \<and> \<not> IS_CHAINING_OPERATOR E t \<and> \<not> IS_PIPE E t \<and> \<not> IS_FILE_OUT_REDIR E t
      \<and> \<not> IS_FILE_IN_REDIR E t \<and> \<not> IS_STDERR_REDIR E t)"

text \<open>A stage nothing was pushed onto: as initialised, up to its descriptors.\<close>

definition unnamed :: "SimpleCommand \<Rightarrow> bool" where
  "unnamed sc =
     (sc = initSimpleCommand\<lparr>inputFD := inputFD sc, outputFD := outputFD sc,
                              stderrFD := stderrFD sc\<rparr>)"

definition is_redirection :: "env \<Rightarrow> string \<Rightarrow> bool" where
  "is_redirection E t = (IS_FILE_OUT_REDIR E t \<or> IS_FILE_IN_REDIR E t \<or> IS_STDERR_REDIR E t)"

text \<open>
  The pipe operators of the first pipeline of a token sequence: the pipe tokens up to
  the first chaining operator, where the token that a redirection operator takes as
  its file name is no operator.
\<close>

function pipe_operators :: "env \<Rightarrow> string list \<Rightarrow> nat" where
  "pipe_operators E [] = 0"
| "pipe_operators E (t # ts) =
     (if IS_CHAINING_OPERATOR E t then 0
      else if IS_PIPE E t then Suc (pipe_operators E ts)
      else if is_redirection E t then pipe_operators E (snd (fileNameToken E ts))
      else pipe_operators E ts)"
  by pat_completeness auto
termination
  by (relation "measure (\<lambda>(E, ts). length ts)")
     (auto simp: le_imp_less_Suc length_snd_fileNameToken)

text \<open>
  Whether a word stands after the last pipe operator of the first pipeline (with no
  pipe operator: whether a word stands in it at all); \<open>b\<close> tells whether one was
  seen already.
\<close>

function word_after_last_pipe :: "env \<Rightarrow> bool \<Rightarrow> string list \<Rightarrow> bool" where
  "word_after_last_pipe E b [] = b"
| "word_after_last_pipe E b (t # ts) =
     (if IS_CHAINING_OPERATOR E t then b
      else if IS_PIPE E t then word_after_last_pipe E False ts
      else if is_redirection E t then word_after_last_pipe E b (snd (fileNameToken E ts))
      else if IGNORE E t then word_after_last_pipe E b ts
      else word_after_last_pipe E True ts)"
  by pat_completeness auto
termination
  by (relation "measure (\<lambda>(E, b, ts). length ts)")
     (auto simp: le_imp_less_Suc length_snd_fileNameToken)

text \<open>
  Stage \<open>a\<close> feeds stage \<open>b\<close>: the output descriptor of \<open>a\<close> is the write end and the
  input descriptor of \<open>b\<close> the read end of one pipe.
\<close>

definition linked :: "os \<Rightarrow> SimpleCommand \<Rightarrow> SimpleCommand \<Rightarrow> bool" where
  "linked s a b =
     (\<exists>k. fdtab s (outputFD a) = Some (PipeWrite k) \<and> fdtab s (inputFD b) = Some (PipeRead k))"

fun wired :: "os \<Rightarrow> SimpleCommand list \<Rightarrow> bool" where
  "wired s (a # b # rest) = (linked s a b \<and> wired s (b # rest))"
| "wired s [a] = True"
| "wired s [] = True"

text \<open>The interpreter's three standard streams are open.\<close>

definition std_open :: "os \<Rightarrow> bool" where
  "std_open s = (fdtab s STDIN_FD \<noteq> None \<and> fdtab s STDOUT_FD \<noteq> None \<and> fdtab s STDERR_FD \<noteq> None)"

text \<open>The input of a stage is the interpreter's, or a file opened for reading.\<close>

definition input_default_or_file :: "os \<Rightarrow> SimpleCommand \<Rightarrow> bool" where
  "input_default_or_file s sc =
     (inputFD sc = STDIN_FD \<or> (\<exists>f. fdtab s (inputFD sc) = Some (File f RdOnly)))"

text \<open>The output of a stage is the interpreter's, or a file opened for writing.\<close>

definition output_default_or_file :: "os \<Rightarrow> SimpleCommand \<Rightarrow> bool" where
  "output_default_or_file s sc =
     (outputFD sc = STDOUT_FD
      \<or> (\<exists>f. fdtab s (outputFD sc) = Some (File f WrCreatTrunc))
      \<or> (\<exists>f. fdtab s (outputFD sc) = Some (File f WrCreatAppend)))"

text \<open>
  What holds of the command and the stage under construction throughout the inner
  loop of the parser: the stages built so far and the current one are wired in a
  row, the first of them reads from the default input or a file, the current one
  writes to the default output or a file, it does not read from the default input
  unless it is the first, and a stage without a name has nothing pushed onto it.
\<close>

definition parse_inv :: "os \<Rightarrow> Command \<Rightarrow> SimpleCommand \<Rightarrow> bool" where
  "parse_inv s command sc =
     (std_open s
      \<and> wired s (simpleCommands command @ [sc])
      \<and> input_default_or_file s (hd (simpleCommands command @ [sc]))
      \<and> output_default_or_file s sc
      \<and> (simpleCommands command = [] \<or> inputFD sc \<noteq> STDIN_FD)
      \<and> (commandName sc \<noteq> None \<or> unnamed sc))"

text \<open>
  The tokens from the terminator of the first pipeline on: the first chaining
  operator that is not taken as a file name by a redirection operator before it.
\<close>

function to_terminator :: "env \<Rightarrow> string list \<Rightarrow> string list" where
  "to_terminator E [] = []"
| "to_terminator E (t # ts) =
     (if IS_CHAINING_OPERATOR E t then t # ts
      else if \<not> IS_PIPE E t \<and> is_redirection E t then to_terminator E (snd (fileNameToken E ts))
      else to_terminator E ts)"
  by pat_completeness auto
termination
  by (relation "measure (\<lambda>(E, ts). length ts)")
     (auto simp: le_imp_less_Suc length_snd_fileNameToken)

lemma length_to_terminator: "length (to_terminator E ts) \<le> length ts"
proof (induction E ts rule: to_terminator.induct)
  case (1 E)
  show ?case by simp
next
  case (2 E t ts)
  have "length (snd (fileNameToken E ts)) \<le> length ts"
    by (rule length_snd_fileNameToken)
  with 2 show ?case
    by (auto simp: le_Suc_eq)
qed

text \<open>
  The terminators of a token sequence, one for each pipeline in order: the chaining
  operator that closes the pipeline, or \<open>None\<close> for the end of the sequence.
\<close>

function terminators :: "env \<Rightarrow> string list \<Rightarrow> string option list" where
  "terminators E [] = []"
| "terminators E (t # ts) =
     (case to_terminator E (t # ts) of
        [] \<Rightarrow> [None]
      | opr # rest \<Rightarrow> Some opr # terminators E rest)"
  by pat_completeness auto
termination
proof (relation "measure (\<lambda>(E, ts). length ts)", goal_cases)
  case 1
  show ?case by simp
next
  case (2 E t ts opr rest)
  have "length (to_terminator E (t # ts)) \<le> length (t # ts)"
    by (rule length_to_terminator)
  with 2 show ?case
    by simp
qed

text \<open>
  The file that the first stage of the first pipeline is told to read from, and the
  file and mode that its last stage is told to write to; \<open>None\<close> when no redirection
  says so. \<open>acc\<close> is what the tokens before said.
\<close>

function first_input_target :: "env \<Rightarrow> string option \<Rightarrow> string list \<Rightarrow> string option" where
  "first_input_target E acc [] = acc"
| "first_input_target E acc (t # ts) =
     (if IS_CHAINING_OPERATOR E t \<or> IS_PIPE E t then acc
      else if IS_FILE_OUT_REDIR E t then first_input_target E acc (snd (fileNameToken E ts))
      else if IS_FILE_IN_REDIR E t then
        first_input_target E (fst (fileNameToken E ts)) (snd (fileNameToken E ts))
      else if IS_STDERR_REDIR E t then first_input_target E acc (snd (fileNameToken E ts))
      else first_input_target E acc ts)"
  by pat_completeness auto
termination
  by (relation "measure (\<lambda>(E, acc, ts). length ts)")
     (auto simp: le_imp_less_Suc length_snd_fileNameToken split_beta)

function last_output_target ::
  "env \<Rightarrow> (string \<times> open_mode) option \<Rightarrow> string list \<Rightarrow> (string \<times> open_mode) option" where
  "last_output_target E acc [] = acc"
| "last_output_target E acc (t # ts) =
     (if IS_CHAINING_OPERATOR E t then acc
      else if IS_PIPE E t then last_output_target E None ts
      else if IS_FILE_OUT_REDIR E t then
        last_output_target E
          (case fst (fileNameToken E ts) of
             None \<Rightarrow> None
           | Some f \<Rightarrow> Some (f, if IS_APPEND E t then WrCreatAppend else WrCreatTrunc))
          (snd (fileNameToken E ts))
      else if IS_FILE_IN_REDIR E t \<or> IS_STDERR_REDIR E t then
        last_output_target E acc (snd (fileNameToken E ts))
      else last_output_target E acc ts)"
  by pat_completeness auto
termination
  by (relation "measure (\<lambda>(E, acc, ts). length ts)")
     (auto simp: le_imp_less_Suc length_snd_fileNameToken split_beta)

text \<open>
  The input of a stage is the interpreter's when no file is named; when a file is
  named, it is a descriptor other than the standard one that was not open before
  the parse (in \<open>s0\<close>) and now refers to that file, opened for reading. Likewise for
  the output, with the mode of the redirection.
\<close>

definition reads_from :: "os \<Rightarrow> os \<Rightarrow> SimpleCommand \<Rightarrow> string option \<Rightarrow> bool" where
  "reads_from s0 s sc target =
     (case target of
        None \<Rightarrow> inputFD sc = STDIN_FD
      | Some f \<Rightarrow>
          inputFD sc \<noteq> STDIN_FD \<and> fdtab s0 (inputFD sc) = None
          \<and> fdtab s (inputFD sc) = Some (File f RdOnly))"

definition writes_to :: "os \<Rightarrow> os \<Rightarrow> SimpleCommand \<Rightarrow> (string \<times> open_mode) option \<Rightarrow> bool" where
  "writes_to s0 s sc target =
     (case target of
        None \<Rightarrow> outputFD sc = STDOUT_FD
      | Some (f, mode) \<Rightarrow>
          outputFD sc \<noteq> STDOUT_FD \<and> fdtab s0 (outputFD sc) = None
          \<and> fdtab s (outputFD sc) = Some (File f mode))"

text \<open>The background flag that goes with a terminator.\<close>

definition background_of :: "env \<Rightarrow> string option \<Rightarrow> bool" where
  "background_of E terminator = (case terminator of None \<Rightarrow> False | Some opr \<Rightarrow> IS_BACKGROUND E opr)"

text \<open>A pipeline all of whose stages have a program name.\<close>

definition stages_named :: "Command \<Rightarrow> bool" where
  "stages_named command = (\<forall>st\<in>set (simpleCommands command). commandName st \<noteq> None)"

section \<open>Evaluation of the model\<close>

lemma lowest_free_numeral [simp]:
  "lowest_free tab (numeral k) fd =
     (if tab fd = None then Some fd else lowest_free tab (pred_numeral k) (fd + 1))"
  by (simp add: numeral_eq_Suc)

lemmas sample_defs = sample_env_def sample_os_def sample_world_def sample_builtin_def
  sample_fork_def sample_waitpid_def sample_stage_def

lemmas parse_defs = parseTokens_def initCommandChain_def initCommand_def initSimpleCommand_def
  parseStep_def closeCommand_def addCommandToChain_def addSimpleCommand_def pushArgs_def
  realloc_cells_def COPY_def glob_call_def fileNameToken_def getExecutionFunction_def
  commandRegistry_def pipe_call_def open_call_def alloc_fd_def std_fd_defs Let_def

lemmas exec_defs = runLine_def executeCommandChain_def executeCommand_def closeDescriptors_def
  close_fd_def close_call_def executeProcess_def returned_def
  history_def history_lookup_def setUpFD_def setUpStream_def arg1_def all_digits_def
  atoi_unsigned_def decimal_def digit_value_def get_command_def chain_pointer_def emit_def
  find_last_command_with_prefix_def resetFD_def resetStream_def dup_call_def dup2_call_def

section \<open>The argument builder\<close>

lemma length_realloc_cells: "length (realloc_cells p n) = n"
  by (cases p) (simp_all add: realloc_cells_def)

lemma last_update_Null:
  assumes "length xs = Suc (Suc n)"
  shows "last (xs[n := a, Suc n := Null]) = Null"
proof -
  have "xs[n := a, Suc n := Null] \<noteq> []"
    using assms by auto
  then show ?thesis
    using assms by (simp add: last_conv_nth)
qed

text \<open>
  Claim C9. Pushing \<open>a\<close>, \<open>b\<close>, \<open>c\<close> in this order onto a fresh stage (as
  \<^verbatim>\<open>initSimpleCommand\<close> returns it, whatever input descriptor the parser then
  gave it) succeeds three times and leaves argument count 3, program name \<open>a\<close> and
  the array \<open>[a, b, c, NULL]\<close>; and after a push onto any stage whatsoever the array
  has one cell more than the argument count, the last of them \<^verbatim>\<open>NULL\<close>.
\<close>

theorem pushArgs_three:
  fixes a b c :: string and fd :: int and sc :: SimpleCommand
  defines "fresh \<equiv> initSimpleCommand\<lparr>inputFD := fd\<rparr>"
  defines "r1 \<equiv> pushArgs a fresh"
  defines "r2 \<equiv> pushArgs b (snd r1)"
  defines "r3 \<equiv> pushArgs c (snd r2)"
  shows "fst r1 = 0 \<and> fst r2 = 0 \<and> fst r3 = 0
       \<and> argc (snd r3) = 3
       \<and> commandName (snd r3) = Some a
       \<and> args (snd r3) = Some [Str a, Str b, Str c, Null]
       \<and> args (snd r1) = Some [Str a, Null]
       \<and> args (snd r2) = Some [Str a, Str b, Null]
       \<and> (\<exists>ys. args (snd (pushArgs arg sc)) = Some ys
              \<and> length ys = argc (snd (pushArgs arg sc)) + 1
              \<and> last ys = Null)"
proof -
  have r1: "snd r1 = fresh\<lparr>args := Some [Str a, Null], argc := 1, commandName := Some a\<rparr>"
    by (simp add: r1_def fresh_def pushArgs_def initSimpleCommand_def realloc_cells_def
        COPY_def Let_def numeral_2_eq_2)
  have r2: "snd r2 = fresh\<lparr>args := Some [Str a, Str b, Null], argc := 2, commandName := Some a\<rparr>"
    by (simp add: r2_def r1 fresh_def pushArgs_def initSimpleCommand_def realloc_cells_def
        COPY_def Let_def)
  have r3: "snd r3 = fresh\<lparr>args := Some [Str a, Str b, Str c, Null], argc := 3, commandName := Some a\<rparr>"
    by (simp add: r3_def r2 fresh_def pushArgs_def initSimpleCommand_def realloc_cells_def
        COPY_def Let_def)
  have st: "fst r1 = 0" "fst r2 = 0" "fst r3 = 0"
    by (simp_all add: r1_def r2_def r3_def pushArgs_def Let_def)
  have terminated: "\<exists>ys. args (snd (pushArgs arg sc)) = Some ys
              \<and> length ys = argc (snd (pushArgs arg sc)) + 1
              \<and> last ys = Null"
    by (simp add: pushArgs_def Let_def length_realloc_cells last_update_Null)
  from r1 r2 r3 st terminated show ?thesis
    by simp
qed

section \<open>The execution engine: order, status and descriptors\<close>

lemma executeSimpleCommands_append:
  "executeSimpleCommands run bg pre w = Return (0, w1)
     \<Longrightarrow> executeSimpleCommands run bg (pre @ post) w = executeSimpleCommands run bg post w1"
proof (induction pre arbitrary: w)
  case Nil
  then show ?case by simp
next
  case (Cons sc pre)
  then show ?case
    by (auto simp: Let_def split: option.splits outcome.splits if_splits)
qed

lemma executeCommands_snoc:
  "executeCommands run st (commands @ [command]) w =
     (case executeCommands run st commands w of
        Return (status, w') \<Rightarrow> executeCommand run command w'
      | Exited n \<Rightarrow> Exited n | Segfault \<Rightarrow> Segfault | OutOfFuel \<Rightarrow> OutOfFuel)"
proof (induction commands arbitrary: st w)
  case Nil
  show ?case by (simp split: outcome.splits)
next
  case (Cons c commands)
  show ?case by (simp add: Cons.IH split: outcome.splits)
qed

text \<open>
  Claim C2. Whatever the runner of the stages does:
  the chain with one more pipeline at its end is executed by executing the chain
  before it to its end, whatever status that reports, and then the last pipeline in
  the world so reached, whose status is the result (the empty chain reports 0);
  and in a pipeline whose first stages all report 0 and whose next stage reports a
  status other than 0, that status is the result of the pipeline, in the world that
  stage left: no later stage is run.
\<close>

theorem chain_runs_every_pipeline:
  "executeCommandChain run (Some (commands @ [command])) w =
     (case executeCommandChain run (Some commands) w of
        Return (status, w') \<Rightarrow> executeCommand run command w'
      | Exited n \<Rightarrow> Exited n | Segfault \<Rightarrow> Segfault | OutOfFuel \<Rightarrow> OutOfFuel)
   \<and> executeCommandChain run (Some []) w = Return (0, w)
   \<and> (simpleCommands pipeline = pre @ sc # post
        \<and> executeSimpleCommands run (background pipeline) pre w = Return (0, w1)
        \<and> commandName sc \<noteq> None
        \<and> run (if background pipeline then sc\<lparr>noWait := 1\<rparr> else sc) w1 = Return (failure, w2)
        \<and> failure \<noteq> 0
      \<longrightarrow> executeCommand run pipeline w = Return (failure, w2))"
proof (intro conjI impI)
  show "executeCommandChain run (Some (commands @ [command])) w =
     (case executeCommandChain run (Some commands) w of
        Return (status, w') \<Rightarrow> executeCommand run command w'
      | Exited n \<Rightarrow> Exited n | Segfault \<Rightarrow> Segfault | OutOfFuel \<Rightarrow> OutOfFuel)"
    by (simp add: executeCommandChain_def executeCommands_snoc)
  show "executeCommandChain run (Some []) w = Return (0, w)"
    by (simp add: executeCommandChain_def)
next
  assume a: "simpleCommands pipeline = pre @ sc # post
        \<and> executeSimpleCommands run (background pipeline) pre w = Return (0, w1)
        \<and> commandName sc \<noteq> None
        \<and> run (if background pipeline then sc\<lparr>noWait := 1\<rparr> else sc) w1 = Return (failure, w2)
        \<and> failure \<noteq> 0"
  then have "executeSimpleCommands run (background pipeline) (pre @ sc # post) w =
             executeSimpleCommands run (background pipeline) (sc # post) w1"
    by (simp add: executeSimpleCommands_append)
  also from a have "\<dots> = Return (failure, w2)"
    by (auto simp: Let_def)
  finally show "executeCommand run pipeline w = Return (failure, w2)"
    using a by (simp add: executeCommand_def)
qed

theorem chain_runs_every_pipeline_witness:
  "executeSimpleCommands (run_stage 1 sample_env) False [sample_stage ''ls'' 0 1] (sample_world [])
     = Return (0, emit ''ls'' (sample_world []))
   \<and> commandName (sample_stage ''false'' 0 1) \<noteq> None
   \<and> run_stage 1 sample_env (sample_stage ''false'' 0 1) (emit ''ls'' (sample_world []))
       = Return (1, emit ''false'' (emit ''ls'' (sample_world [])))
   \<and> executeCommand (run_stage 1 sample_env)
        \<lparr>simpleCommands = [sample_stage ''ls'' 0 1, sample_stage ''false'' 0 1, sample_stage ''echo'' 0 1],
         background = False, chainingOperator = Some ''&&''\<rparr> (sample_world [])
       = Return (1, emit ''false'' (emit ''ls'' (sample_world [])))
   \<and> executeCommandChain (run_stage 1 sample_env)
        (Some [\<lparr>simpleCommands = [sample_stage ''ls'' 0 1, sample_stage ''false'' 0 1, sample_stage ''echo'' 0 1],
                 background = False, chainingOperator = Some ''&&''\<rparr>,
               \<lparr>simpleCommands = [sample_stage ''date'' 0 1],
                 background = False, chainingOperator = None\<rparr>]) (sample_world [])
       = Return (0, emit ''date'' (emit ''false'' (emit ''ls'' (sample_world []))))"
proof -
  let ?R = "run_stage 1 sample_env"
  let ?p = "\<lparr>simpleCommands = [sample_stage ''ls'' 0 1, sample_stage ''false'' 0 1, sample_stage ''echo'' 0 1],
         background = False, chainingOperator = Some ''&&''\<rparr>"
  let ?q = "\<lparr>simpleCommands = [sample_stage ''date'' 0 1],
                 background = False, chainingOperator = None\<rparr>"
  have h1: "executeSimpleCommands ?R False [sample_stage ''ls'' 0 1] (sample_world [])
     = Return (0, emit ''ls'' (sample_world []))"
    by (simp add: sample_defs parse_defs exec_defs)
  have h2: "commandName (sample_stage ''false'' 0 1) \<noteq> None"
    by (simp add: sample_defs parse_defs)
  have h3: "?R (sample_stage ''false'' 0 1) (emit ''ls'' (sample_world []))
       = Return (1, emit ''false'' (emit ''ls'' (sample_world [])))"
    by (simp add: sample_defs parse_defs exec_defs)
  have h4: "executeCommand ?R ?p (sample_world []) = Return (1, emit ''false'' (emit ''ls'' (sample_world [])))"
    using chain_runs_every_pipeline [of ?R "[]" ?p "sample_world []" ?p "[sample_stage ''ls'' 0 1]"
        "sample_stage ''false'' 0 1" "[sample_stage ''echo'' 0 1]" "emit ''ls'' (sample_world [])"
        1 "emit ''false'' (emit ''ls'' (sample_world []))"] h1 h2 h3
    by simp
  have h5: "executeCommand ?R ?q (emit ''false'' (emit ''ls'' (sample_world [])))
       = Return (0, emit ''date'' (emit ''false'' (emit ''ls'' (sample_world []))))"
    by (simp add: sample_defs parse_defs exec_defs)
  have h6: "executeCommandChain ?R (Some [?p]) (sample_world []) = Return (1, emit ''false'' (emit ''ls'' (sample_world [])))"
    using chain_runs_every_pipeline [of ?R "[]" ?p "sample_world []"] h4
    by simp
  have h7: "executeCommandChain ?R (Some [?p, ?q]) (sample_world [])
       = Return (0, emit ''date'' (emit ''false'' (emit ''ls'' (sample_world []))))"
    using chain_runs_every_pipeline [of ?R "[?p]" ?q "sample_world []"] h5 h6
    by simp
  from h1 h2 h3 h4 h7 show ?thesis
    by blast
qed

lemma fdtab_close_fd_same: "fdtab (sys (close_fd fd w)) fd = None"
  by (simp add: close_fd_def close_call_def)

lemma fdtab_close_fd: "fdtab (sys (close_fd fd w)) fd' = (if fd' = fd then None else fdtab (sys w) fd')"
  by (simp add: close_fd_def close_call_def)

lemma closeDescriptors_noWait [simp]:
  "closeDescriptors (sc\<lparr>noWait := n\<rparr>) w = closeDescriptors sc w"
  by (simp add: closeDescriptors_def)

text \<open>
  Claim C3, as the code has it. A stage that has a name and whose runner returns
  status 0 has its input descriptor closed by \<^verbatim>\<open>executeCommand\<close> when that is not
  the standard input, and its output descriptor when that is not the standard
  output; every other descriptor is left as the runner left it, the standard input
  and output among them (nothing is said here of an error descriptor that is not
  the standard one), and nothing but the descriptor table changes; the loop then
  goes on with the next stage. This covers the stage of a background pipeline:
  \<^verbatim>\<open>executeProcess\<close> returns 0 for a stage marked \<^verbatim>\<open>noWait\<close> as soon as \<^verbatim>\<open>fork\<close>
  succeeded. A stage whose runner returns another status ends \<^verbatim>\<open>executeCommand\<close>
  with that status and the world exactly as the runner left it: none of the close
  statements is reached.
\<close>

theorem stage_descriptors_closed_after_success:
  assumes "commandName sc \<noteq> None"
      and "run (if bg then sc\<lparr>noWait := 1\<rparr> else sc) w = Return (status, w1)"
  shows "(status = 0 \<longrightarrow>
            executeSimpleCommands run bg (sc # rest) w =
              executeSimpleCommands run bg rest (closeDescriptors sc w1))
       \<and> (\<forall>fd. (fd = inputFD sc \<and> inputFD sc \<noteq> STDIN_FD)
               \<or> (fd = outputFD sc \<and> outputFD sc \<noteq> STDOUT_FD)
              \<longrightarrow> fdtab (sys (closeDescriptors sc w1)) fd = None)
       \<and> (\<forall>fd. \<not> (fd = inputFD sc \<and> inputFD sc \<noteq> STDIN_FD)
               \<and> \<not> (fd = outputFD sc \<and> outputFD sc \<noteq> STDOUT_FD)
               \<and> \<not> (fd = stderrFD sc \<and> stderrFD sc \<noteq> STDERR_FD)
              \<longrightarrow> fdtab (sys (closeDescriptors sc w1)) fd = fdtab (sys w1) fd)
       \<and> (\<exists>tab. closeDescriptors sc w1 = w1\<lparr>sys := (sys w1)\<lparr>fdtab := tab\<rparr>\<rparr>)
       \<and> (status \<noteq> 0 \<longrightarrow> executeSimpleCommands run bg (sc # rest) w = Return (status, w1))
       \<and> (noWait sc' \<noteq> 0 \<and> fork_exec E sc' v = (Some child, v')
            \<longrightarrow> executeProcess E sc' v = Return (0, v'))"
proof (intro conjI impI allI)
  assume "status = 0"
  with assms show "executeSimpleCommands run bg (sc # rest) w =
              executeSimpleCommands run bg rest (closeDescriptors sc w1)"
    by (auto simp: Let_def)
next
  fix fd
  assume "(fd = inputFD sc \<and> inputFD sc \<noteq> STDIN_FD)
               \<or> (fd = outputFD sc \<and> outputFD sc \<noteq> STDOUT_FD)"
  then show "fdtab (sys (closeDescriptors sc w1)) fd = None"
    by (auto simp: closeDescriptors_def Let_def fdtab_close_fd)
next
  fix fd
  assume "\<not> (fd = inputFD sc \<and> inputFD sc \<noteq> STDIN_FD)
               \<and> \<not> (fd = outputFD sc \<and> outputFD sc \<noteq> STDOUT_FD)
               \<and> \<not> (fd = stderrFD sc \<and> stderrFD sc \<noteq> STDERR_FD)"
  then show "fdtab (sys (closeDescriptors sc w1)) fd = fdtab (sys w1) fd"
    by (auto simp: closeDescriptors_def Let_def fdtab_close_fd)
next
  show "\<exists>tab. closeDescriptors sc w1 = w1\<lparr>sys := (sys w1)\<lparr>fdtab := tab\<rparr>\<rparr>"
    by (rule exI [of _ "fdtab (sys (closeDescriptors sc w1))"])
       (simp add: closeDescriptors_def Let_def close_fd_def close_call_def)
next
  assume "status \<noteq> 0"
  with assms show "executeSimpleCommands run bg (sc # rest) w = Return (status, w1)"
    by (auto simp: Let_def)
next
  assume "noWait sc' \<noteq> 0 \<and> fork_exec E sc' v = (Some child, v')"
  then show "executeProcess E sc' v = Return (0, v')"
    by (simp add: executeProcess_def)
qed

text \<open>
  The line \<^verbatim>\<open>false > out\<close>: the parser opens \<^verbatim>\<open>out\<close> as descriptor 3 for the
  stage, the stage reports status 1, and descriptor 3 is still open afterwards.
\<close>

theorem failed_stage_descriptor_left_open:
  "map_option (map (map outputFD \<circ> simpleCommands))
      (chain_pointer (fst (parseTokens sample_env [''false'', ''>'', ''out''] sample_os)))
     = Some [[3]]
   \<and> map_option (\<lambda>(status, w). (status, fdtab (sys w) 3))
        (returned (runLine 1 sample_env [''false'', ''>'', ''out''] (sample_world [])))
     = Some (1, Some (File ''out'' WrCreatTrunc))"
  by (simp add: sample_defs parse_defs exec_defs)

theorem stage_descriptors_closed_after_success_witness:
  "commandName (sample_stage ''ls'' 0 3) \<noteq> None
   \<and> run_stage 1 sample_env ((sample_stage ''ls'' 0 3)\<lparr>noWait := 1\<rparr>)
        ((sample_world [])\<lparr>sys := snd (the (open_call (Some ''out'') WrCreatTrunc sample_os))\<rparr>)
       = Return (0, emit ''ls''
           ((sample_world [])\<lparr>sys := snd (the (open_call (Some ''out'') WrCreatTrunc sample_os))\<rparr>))
   \<and> outputFD (sample_stage ''ls'' 0 3) = 3 \<and> outputFD (sample_stage ''ls'' 0 3) \<noteq> STDOUT_FD
   \<and> inputFD (sample_stage ''ls'' 0 3) = STDIN_FD \<and> stderrFD (sample_stage ''ls'' 0 3) = STDERR_FD
   \<and> fdtab (sys (emit ''ls''
           ((sample_world [])\<lparr>sys := snd (the (open_call (Some ''out'') WrCreatTrunc sample_os))\<rparr>))) 3
       = Some (File ''out'' WrCreatTrunc)
   \<and> fdtab (sys (closeDescriptors (sample_stage ''ls'' 0 3) (emit ''ls''
           ((sample_world [])\<lparr>sys := snd (the (open_call (Some ''out'') WrCreatTrunc sample_os))\<rparr>)))) 3
       = None
   \<and> fdtab (sys (closeDescriptors (sample_stage ''ls'' 0 3) (emit ''ls''
           ((sample_world [])\<lparr>sys := snd (the (open_call (Some ''out'') WrCreatTrunc sample_os))\<rparr>)))) STDIN_FD
       = Some Terminal
   \<and> fdtab (sys (closeDescriptors (sample_stage ''ls'' 0 3) (emit ''ls''
           ((sample_world [])\<lparr>sys := snd (the (open_call (Some ''out'') WrCreatTrunc sample_os))\<rparr>)))) STDOUT_FD
       = Some Terminal
   \<and> executeSimpleCommands (run_stage 1 sample_env) True [sample_stage ''ls'' 0 3]
        ((sample_world [])\<lparr>sys := snd (the (open_call (Some ''out'') WrCreatTrunc sample_os))\<rparr>)
       = Return (0, closeDescriptors (sample_stage ''ls'' 0 3) (emit ''ls''
           ((sample_world [])\<lparr>sys := snd (the (open_call (Some ''out'') WrCreatTrunc sample_os))\<rparr>)))
   \<and> run_stage 1 sample_env (sample_stage ''false'' 0 3)
        ((sample_world [])\<lparr>sys := snd (the (open_call (Some ''out'') WrCreatTrunc sample_os))\<rparr>)
       = Return (1, emit ''false''
           ((sample_world [])\<lparr>sys := snd (the (open_call (Some ''out'') WrCreatTrunc sample_os))\<rparr>))
   \<and> executeSimpleCommands (run_stage 1 sample_env) False [sample_stage ''false'' 0 3, sample_stage ''ls'' 0 1]
        ((sample_world [])\<lparr>sys := snd (the (open_call (Some ''out'') WrCreatTrunc sample_os))\<rparr>)
       = Return (1, emit ''false''
           ((sample_world [])\<lparr>sys := snd (the (open_call (Some ''out'') WrCreatTrunc sample_os))\<rparr>))
   \<and> noWait ((sample_stage ''ls'' 0 3)\<lparr>noWait := 1\<rparr>) \<noteq> 0
   \<and> fork_exec sample_env ((sample_stage ''ls'' 0 3)\<lparr>noWait := 1\<rparr>) (sample_world [])
       = (Some 100, emit ''ls'' (sample_world []))
   \<and> executeProcess sample_env ((sample_stage ''ls'' 0 3)\<lparr>noWait := 1\<rparr>) (sample_world [])
       = Return (0, emit ''ls'' (sample_world []))"
proof -
  let ?R = "run_stage 1 sample_env"
  let ?w = "(sample_world [])\<lparr>sys := snd (the (open_call (Some ''out'') WrCreatTrunc sample_os))\<rparr>"
  let ?ls = "sample_stage ''ls'' 0 3"
  have a1: "commandName ?ls \<noteq> None"
    by (simp add: sample_defs parse_defs)
  have a2: "?R (if True then ?ls\<lparr>noWait := 1\<rparr> else ?ls) ?w = Return (0, emit ''ls'' ?w)"
    by (simp add: sample_defs parse_defs exec_defs)
  have fds: "outputFD ?ls = 3" "inputFD ?ls = STDIN_FD" "stderrFD ?ls = STDERR_FD"
    by (simp_all add: sample_defs parse_defs)
  then have a3: "outputFD ?ls \<noteq> STDOUT_FD"
    by (simp add: std_fd_defs)
  have a4: "fdtab (sys (emit ''ls'' ?w)) 3 = Some (File ''out'' WrCreatTrunc)"
    by (simp add: sample_defs parse_defs exec_defs)
  have a5: "fdtab (sys (emit ''ls'' ?w)) STDIN_FD = Some Terminal"
    "fdtab (sys (emit ''ls'' ?w)) STDOUT_FD = Some Terminal"
    by (simp_all add: sample_defs parse_defs exec_defs)
  have b1: "commandName (sample_stage ''false'' 0 3) \<noteq> None"
    by (simp add: sample_defs parse_defs)
  have b2: "?R (if False then (sample_stage ''false'' 0 3)\<lparr>noWait := 1\<rparr> else sample_stage ''false'' 0 3) ?w
              = Return (1, emit ''false'' ?w)"
    by (simp add: sample_defs parse_defs exec_defs)
  note A = stage_descriptors_closed_after_success
    [where run = ?R and bg = True and sc = ?ls and rest = "[]", OF a1 a2]
  note B = stage_descriptors_closed_after_success
    [where run = ?R and bg = False and sc = "sample_stage ''false'' 0 3"
       and rest = "[sample_stage ''ls'' 0 1]", OF b1 b2]
  note closed = A [THEN conjunct2, THEN conjunct1]
  note kept = A [THEN conjunct2, THEN conjunct2, THEN conjunct1]
  from closed [rule_format, of 3] fds a3
  have c1: "fdtab (sys (closeDescriptors ?ls (emit ''ls'' ?w))) 3 = None"
    by simp
  from kept [rule_format, of STDIN_FD] fds a5
  have c5: "fdtab (sys (closeDescriptors ?ls (emit ''ls'' ?w))) STDIN_FD = Some Terminal"
    by (simp add: std_fd_defs)
  from kept [rule_format, of STDOUT_FD] fds a5
  have c6: "fdtab (sys (closeDescriptors ?ls (emit ''ls'' ?w))) STDOUT_FD = Some Terminal"
    by (simp add: std_fd_defs)
  from A [THEN conjunct1] have c2: "executeSimpleCommands ?R True [?ls] ?w
       = Return (0, closeDescriptors ?ls (emit ''ls'' ?w))"
    by simp
  from B [THEN conjunct2, THEN conjunct2, THEN conjunct2, THEN conjunct2, THEN conjunct1]
  have c3: "executeSimpleCommands ?R False [sample_stage ''false'' 0 3, sample_stage ''ls'' 0 1] ?w
       = Return (1, emit ''false'' ?w)"
    by simp
  have d1: "noWait (?ls\<lparr>noWait := 1\<rparr>) \<noteq> 0"
    by simp
  have d2: "fork_exec sample_env (?ls\<lparr>noWait := 1\<rparr>) (sample_world [])
       = (Some 100, emit ''ls'' (sample_world []))"
    by (simp add: sample_defs parse_defs)
  from A [where sc' = "?ls\<lparr>noWait := 1\<rparr>" and E = sample_env and v = "sample_world []",
          THEN conjunct2, THEN conjunct2, THEN conjunct2, THEN conjunct2, THEN conjunct2] d1 d2
  have c4: "executeProcess sample_env (?ls\<lparr>noWait := 1\<rparr>) (sample_world [])
       = Return (0, emit ''ls'' (sample_world []))"
    by blast
  from a1 a2 fds a3 a4 b2 c1 c5 c6 c2 c3 d1 d2 c4 show ?thesis
    by simp
qed

section \<open>The history builtin\<close>

text \<open>
  Claim C5 at the input \<^verbatim>\<open>history 0\<close> with one entry in the history: the index
  passes the range check of \<^verbatim>\<open>get_command\<close> (0 is not above the size), the loop
  runs off the end of the list, and the read of \<^verbatim>\<open>curr->command\<close> faults. The
  interpreter ends there instead of reporting an invalid index.
\<close>

theorem history_index_zero_faults:
  "get_command [''ls''] (atoi_unsigned ''0'') = Segfault
   \<and> runLine 1 sample_env [''history'', ''0''] (sample_world [''ls'']) = Segfault
   \<and> runLine 1 sample_env [''!0''] (sample_world [''ls'']) = Segfault"
  by (simp add: sample_defs parse_defs exec_defs)

text \<open>
  What holds of the claim: an index above the number of entries, and any index on an
  empty history, is reported as invalid with status \<open>-1\<close> and the history is not
  touched; the listing of an empty history writes nothing and returns 0.
\<close>

lemma get_command_above_size:
  "length list < unat index \<or> list = [] \<Longrightarrow> get_command list index = Return None"
  by (auto simp: get_command_def)

lemma history_index_above_size:
  assumes "argc sc = 2" and "arg1 sc = Some a" and "all_digits a"
      and "inputFD sc = STDIN_FD" and "outputFD sc = STDOUT_FD" and "stderrFD sc = STDERR_FD"
      and "length (historyList (shellState w)) < unat (atoi_unsigned a)
           \<or> historyList (shellState w) = []"
  shows "history exec E sc w = Return (-1, emit (''history: invalid index'' @ [CHR 0x0A]) w)"
  using assms
  by (simp add: history_def setUpFD_def setUpStream_def history_lookup_def
      get_command_above_size COPY_def)

lemma history_empty_listing:
  assumes "argc sc = 1"
      and "inputFD sc = STDIN_FD" and "outputFD sc = STDOUT_FD" and "stderrFD sc = STDERR_FD"
      and "historyList (shellState w) = []"
      and "originalStdinFD (shellState w) = STDIN_FD"
      and "originalStdoutFD (shellState w) = STDOUT_FD"
      and "originalStderrFD (shellState w) = STDERR_FD"
  shows "history exec E sc w = Return (0, w)"
  using assms
  by (simp add: history_def setUpFD_def setUpStream_def resetFD_def resetStream_def)

text \<open>
  Claim C10. When the stage has one argument, its descriptors are set up, the lookup
  of the argument finds an entry, and the execution of the chain parsed from that
  entry returns, then \<^verbatim>\<open>history\<close> returns 0 in the world the execution left,
  whatever status the execution reported.
\<close>

theorem history_discards_reexecution_status:
  assumes "argc sc = 2"
      and "setUpFD (inputFD sc) (outputFD sc) (stderrFD sc) w = (0, w_set)"
      and "arg1 sc = Some a"
      and "history_lookup (historyList (shellState w_set)) a = Return (Inr input)"
      and "parseTokens E (tokenizeString E input CHR '' '') (sys w_set) = (parsed, s_parsed)"
      and "exec (chain_pointer parsed) (w_set\<lparr>sys := s_parsed\<rparr>) = Return (status, w_done)"
  shows "history exec E sc w = Return (0, w_done)"
  using assms by (simp add: history_def)

theorem history_discards_reexecution_status_witness:
  "argc ((sample_stage ''history'' 0 1)\<lparr>args := Some [Str ''history'', Str ''1'', Null], argc := 2\<rparr>) = 2
   \<and> history_lookup [''false''] ''1'' = Return (Inr ''false'')
   \<and> executeCommandChain (run_stage 1 sample_env)
        (chain_pointer (fst (parseTokens sample_env (tokenizeString sample_env ''false'' CHR '' '') sample_os)))
        (sample_world [''false''])
       = Return (1, emit ''false'' (sample_world [''false'']))
   \<and> history (executeCommandChain (run_stage 1 sample_env)) sample_env
        ((sample_stage ''history'' 0 1)\<lparr>args := Some [Str ''history'', Str ''1'', Null], argc := 2\<rparr>)
        (sample_world [''false''])
       = Return (0, emit ''false'' (sample_world [''false'']))
   \<and> run_stage 2 sample_env
        ((sample_stage ''history'' 0 1)\<lparr>args := Some [Str ''history'', Str ''1'', Null], argc := 2\<rparr>)
        (sample_world [''false''])
       = Return (0, emit ''false'' (sample_world [''false'']))"
proof -
  let ?sc = "(sample_stage ''history'' 0 1)\<lparr>args := Some [Str ''history'', Str ''1'', Null], argc := 2\<rparr>"
  let ?w = "sample_world [''false'']"
  let ?exec = "executeCommandChain (run_stage 1 sample_env)"
  have h1: "argc ?sc = 2"
    by simp
  have h2: "setUpFD (inputFD ?sc) (outputFD ?sc) (stderrFD ?sc) ?w = (0, ?w)"
    by (simp add: sample_defs parse_defs exec_defs)
  have h3: "arg1 ?sc = Some ''1''"
    by (simp add: arg1_def)
  have h4: "history_lookup (historyList (shellState ?w)) ''1'' = Return (Inr ''false'')"
    by (simp add: sample_defs parse_defs exec_defs)
  have h5: "parseTokens sample_env (tokenizeString sample_env ''false'' CHR '' '') (sys ?w)
      = (fst (parseTokens sample_env (tokenizeString sample_env ''false'' CHR '' '') sample_os), sample_os)"
    by (simp add: sample_defs parse_defs)
  have h6: "?exec (chain_pointer (fst (parseTokens sample_env (tokenizeString sample_env ''false'' CHR '' '') sample_os)))
              (?w\<lparr>sys := sample_os\<rparr>) = Return (1, emit ''false'' ?w)"
    by (simp add: sample_defs parse_defs exec_defs)
  have r: "history ?exec sample_env ?sc ?w = Return (0, emit ''false'' ?w)"
    by (rule history_discards_reexecution_status
          [where exec = ?exec and E = sample_env and sc = ?sc and w = ?w and w_set = ?w
             and s_parsed = sample_os and status = 1, OF h1 h2 h3 h4 h5 h6])
  have e: "execute ?sc = Some History"
    by (simp add: sample_defs parse_defs)
  have r2: "run_stage 2 sample_env ?sc ?w = history ?exec sample_env ?sc ?w"
    using e by (simp add: numeral_2_eq_2)
  have h6': "?exec (chain_pointer (fst (parseTokens sample_env (tokenizeString sample_env ''false'' CHR '' '') sample_os)))
              ?w = Return (1, emit ''false'' ?w)"
    using h6 by (simp add: sample_world_def)
  have h4': "history_lookup [''false''] ''1'' = Return (Inr ''false'')"
    using h4 by (simp add: sample_world_def)
  from h1 h4' h6' r r2 show ?thesis
    by simp
qed

section \<open>The parser: single steps\<close>

lemma unnamed_no_name:
  assumes "unnamed sc"
  shows "commandName sc = None" and "args sc = None" and "argc sc = 0"
proof -
  let ?i = "initSimpleCommand\<lparr>inputFD := inputFD sc, outputFD := outputFD sc, stderrFD := stderrFD sc\<rparr>"
  from assms have eq: "sc = ?i"
    by (simp add: unnamed_def)
  have "commandName ?i = None" and "args ?i = None" and "argc ?i = 0"
    by (simp_all add: initSimpleCommand_def)
  then show "commandName sc = None" and "args sc = None" and "argc sc = 0"
    using arg_cong [OF eq, of commandName] arg_cong [OF eq, of args] arg_cong [OF eq, of argc]
    by simp_all
qed

lemma unnamed_init [simp]: "unnamed (initSimpleCommand\<lparr>inputFD := fd\<rparr>)" "unnamed initSimpleCommand"
  by (simp_all add: unnamed_def initSimpleCommand_def)

lemma pushArgs_unnamed:
  assumes "unnamed sc"
  shows "pushArgs a sc = (0, sc\<lparr>args := Some [Str a, Null], argc := 1, commandName := Some a\<rparr>)"
  using unnamed_no_name [OF assms]
  by (simp add: pushArgs_def realloc_cells_def COPY_def Let_def numeral_2_eq_2)

lemma pushArgs_second:
  assumes "args sc = Some [Str a, Null]" and "argc sc = 1"
  shows "pushArgs b sc = (0, sc\<lparr>args := Some [Str a, Str b, Null], argc := 2\<rparr>)"
  using assms
  by (simp add: pushArgs_def realloc_cells_def COPY_def Let_def numeral_2_eq_2 numeral_3_eq_3)

text \<open>
  Claim C8. At a bare word of at least two characters that begins with \<^verbatim>\<open>!\<close>, met
  while the stage has no program name, the loop pushes exactly \<^verbatim>\<open>history\<close> and the
  rest of the token and goes on with the next token: the stage then has the argument
  list \<open>[history, rest, NULL]\<close>, two arguments and the program name \<^verbatim>\<open>history\<close>.
  The rest of the token is pushed as it stands, and the step is the same whatever
  \<^verbatim>\<open>removeQuotes\<close> and \<^verbatim>\<open>glob\<close> would do: they are not called.
\<close>

theorem history_bang_rewritten:
  assumes "plain_word E t" and "2 \<le> length t" and "hd t = CHR ''!''" and "unnamed sc"
  shows "parseSimpleCommands E (t # ts) command sc s =
           parseSimpleCommands E ts command
             (sc\<lparr>args := Some [Str ''history'', Str (tl t), Null], argc := 2,
                 commandName := Some ''history''\<rparr>) s
       \<and> parseStep (E\<lparr>removeQuotes := strip, glob_matches := matches\<rparr>) t ts command sc s =
           parseStep E t ts command sc s"
proof -
  have name: "commandName sc = None"
    by (rule unnamed_no_name [OF assms(4)])
  have t: "t \<noteq> []" "1 < length t"
    using assms(2) by auto
  have p1: "pushArgs ''history'' sc =
              (0, sc\<lparr>args := Some [Str ''history'', Null], argc := 1, commandName := Some ''history''\<rparr>)"
    by (rule pushArgs_unnamed [OF assms(4)])
  have p2: "pushArgs (tl t) (sc\<lparr>args := Some [Str ''history'', Null], argc := 1, commandName := Some ''history''\<rparr>) =
              (0, sc\<lparr>args := Some [Str ''history'', Str (tl t), Null], argc := 2,
                     commandName := Some ''history''\<rparr>)"
    by (simp add: pushArgs_second)
  have step: "parseStep E t ts command sc s =
                (Inr (command, sc\<lparr>args := Some [Str ''history'', Str (tl t), Null], argc := 2,
                                   commandName := Some ''history''\<rparr>, ts), s)"
    using assms(1,3) name t by (simp add: parseStep_def plain_word_def p1 pushArgs_second)
  have step': "parseStep (E\<lparr>removeQuotes := strip, glob_matches := matches\<rparr>) t ts command sc s =
                (Inr (command, sc\<lparr>args := Some [Str ''history'', Str (tl t), Null], argc := 2,
                                   commandName := Some ''history''\<rparr>, ts), s)"
    using assms(1,3) name t by (simp add: parseStep_def plain_word_def p1 pushArgs_second)
  from assms(1) have "\<not> IS_CHAINING_OPERATOR E t"
    by (simp add: plain_word_def)
  then show ?thesis
    by (simp add: step step')
qed

theorem history_bang_rewritten_witness:
  "plain_word sample_env ''!5'' \<and> 2 \<le> length ''!5'' \<and> hd ''!5'' = CHR ''!''
   \<and> unnamed initSimpleCommand
   \<and> parseSimpleCommands sample_env [''!5''] initCommand initSimpleCommand sample_os =
       (Inr (initCommand,
             initSimpleCommand\<lparr>args := Some [Str ''history'', Str ''5'', Null], argc := 2,
                                commandName := Some ''history''\<rparr>, []), sample_os)
   \<and> map_option (map (map args \<circ> simpleCommands))
       (chain_pointer (fst (parseTokens sample_env [''!5''] sample_os)))
       = Some [[Some [Str ''history'', Str ''5'', Null]]]"
proof -
  have h1: "plain_word sample_env ''!5''"
    by (simp add: plain_word_def sample_env_def)
  have h2: "2 \<le> length ''!5''" and h3: "hd ''!5'' = CHR ''!''"
    by simp_all
  have h4: "unnamed initSimpleCommand"
    by simp
  from history_bang_rewritten [OF h1 h2 h3 h4, of "[]" initCommand sample_os]
  have "parseSimpleCommands sample_env [''!5''] initCommand initSimpleCommand sample_os =
       (Inr (initCommand,
             initSimpleCommand\<lparr>args := Some [Str ''history'', Str ''5'', Null], argc := 2,
                                commandName := Some ''history''\<rparr>, []), sample_os)"
    by simp
  moreover have "map_option (map (map args \<circ> simpleCommands))
       (chain_pointer (fst (parseTokens sample_env [''!5''] sample_os)))
       = Some [[Some [Str ''history'', Str ''5'', Null]]]"
    by (simp add: sample_defs parse_defs exec_defs)
  ultimately show ?thesis
    using h1 h2 h3 h4 by blast
qed

lemma lowest_free_free: "lowest_free tab n fd = Some r \<Longrightarrow> tab r = None"
  by (induction n arbitrary: fd) (auto split: if_splits)

lemma alloc_fd_free: "alloc_fd s = Some fd \<Longrightarrow> fdtab s fd = None"
  by (simp add: alloc_fd_def lowest_free_free)

lemma open_call_RdOnly:
  assumes "open_call name RdOnly s = Some (fd, s')"
  shows "\<exists>f. name = Some f \<and> f \<in> set (files s) \<and> fdtab s' fd = Some (File f RdOnly)
             \<and> fdtab s fd = None"
  using assms
  by (auto simp: open_call_def alloc_fd_free split: option.splits if_splits)

lemma parse_error_aborts:
  "parseSimpleCommands E (t # ts) initCommand initSimpleCommand s = (Inl e, s1)
     \<Longrightarrow> parseTokens_loop E (t # ts) chain s = (Inl e, s1)"
  by (simp del: parseSimpleCommands.simps)

section \<open>The parser: input redirection\<close>

text \<open>
  What the loop does at an input redirection operator. A stage whose input
  descriptor is no longer the default ends the parse with an error. The file name is
  the next token that is not ignorable; it is opened for reading only; when the open
  fails, as it does for a file that does not exist, the parse ends with an error;
  otherwise the stage reads from the new descriptor and the loop goes on after the
  file name.
\<close>

lemma input_redirection_step:
  assumes "\<not> IS_CHAINING_OPERATOR E t" and "\<not> IS_PIPE E t" and "\<not> IS_FILE_OUT_REDIR E t"
      and "IS_FILE_IN_REDIR E t"
  shows "(inputFD sc \<noteq> STDIN_FD \<longrightarrow>
            parseSimpleCommands E (t # ts) command sc s = (Inl InRedirTwice, s))
       \<and> (inputFD sc = STDIN_FD \<and> open_call (fst (fileNameToken E ts)) RdOnly s = None \<longrightarrow>
            parseSimpleCommands E (t # ts) command sc s = (Inl InOpenFailed, s))
       \<and> (inputFD sc = STDIN_FD \<and> open_call (fst (fileNameToken E ts)) RdOnly s = Some (fileFD, s') \<longrightarrow>
            parseSimpleCommands E (t # ts) command sc s =
              parseSimpleCommands E (snd (fileNameToken E ts)) command (sc\<lparr>inputFD := fileFD\<rparr>) s'
            \<and> (\<exists>f. fst (fileNameToken E ts) = Some f \<and> f \<in> set (files s)
                    \<and> fdtab s' fileFD = Some (File f RdOnly)))
       \<and> (f \<notin> set (files s) \<longrightarrow> open_call (Some f) RdOnly s = None)"
proof (intro conjI impI)
  assume "inputFD sc \<noteq> STDIN_FD"
  with assms show "parseSimpleCommands E (t # ts) command sc s = (Inl InRedirTwice, s)"
    by (simp add: parseStep_def)
next
  assume "inputFD sc = STDIN_FD \<and> open_call (fst (fileNameToken E ts)) RdOnly s = None"
  with assms show "parseSimpleCommands E (t # ts) command sc s = (Inl InOpenFailed, s)"
    by (simp add: parseStep_def split_beta)
next
  assume a: "inputFD sc = STDIN_FD \<and> open_call (fst (fileNameToken E ts)) RdOnly s = Some (fileFD, s')"
  with assms show "parseSimpleCommands E (t # ts) command sc s =
              parseSimpleCommands E (snd (fileNameToken E ts)) command (sc\<lparr>inputFD := fileFD\<rparr>) s'"
    by (simp add: parseStep_def split_beta)
  from a open_call_RdOnly
  show "\<exists>f. fst (fileNameToken E ts) = Some f \<and> f \<in> set (files s)
                    \<and> fdtab s' fileFD = Some (File f RdOnly)"
    by blast
next
  assume "f \<notin> set (files s)"
  then show "open_call (Some f) RdOnly s = None"
    by (simp add: open_call_def)
qed

text \<open>
  An error of the inner loop is the result of the whole parse, wherever in the line
  it occurs and whatever chain was built before.
\<close>

lemma parse_error_rejects_line:
  "parseSimpleCommands E tokens initCommand initSimpleCommand s = (Inl e, s1)
     \<Longrightarrow> parseTokens E tokens s = (Inl e, s1)"
proof (cases tokens)
  case Nil
  assume "parseSimpleCommands E tokens initCommand initSimpleCommand s = (Inl e, s1)"
  with Nil show ?thesis by simp
next
  case (Cons t ts)
  assume "parseSimpleCommands E tokens initCommand initSimpleCommand s = (Inl e, s1)"
  with Cons show ?thesis
    by (simp add: parseTokens_def del: parseSimpleCommands.simps)
qed

text \<open>
  The lines \<^verbatim>\<open>cat < missing\<close>, where the file does not exist, and
  \<^verbatim>\<open>cat < in.txt < in.txt\<close>, where the input is redirected twice, are rejected;
  \<^verbatim>\<open>cat < in.txt\<close> is accepted and \<^verbatim>\<open>cat\<close> reads from the file, opened for reading
  only on descriptor 3.
\<close>

lemma input_redirection_lines:
  "parseTokens sample_env [''cat'', ''<'', ''missing''] sample_os = (Inl InOpenFailed, sample_os)
   \<and> fst (parseTokens sample_env [''cat'', ''<'', ''in.txt'', ''<'', ''in.txt''] sample_os)
       = Inl InRedirTwice
   \<and> parseTokens sample_env [''cat'', ''<'', ''in.txt''] sample_os =
       (Inr [\<lparr>simpleCommands = [sample_stage ''cat'' 3 1], background = False,
               chainingOperator = None\<rparr>],
        sample_os\<lparr>fdtab := (fdtab sample_os)(3 \<mapsto> File ''in.txt'' RdOnly)\<rparr>)"
  by (simp add: sample_defs parse_defs)

text \<open>
  Claim C6. The claim asks of an input redirection what the loop asks of an output
  redirection and of a pipe: a stage that already has a program name, else the parse
  ends with an error. The branches of the loop for the pipe and for the output
  redirection make that check; the branch for the input redirection does not. So
  the lines \<^verbatim>\<open>| cat\<close> and \<^verbatim>\<open>> out cat\<close> are rejected, and the line
  \<^verbatim>\<open>< in.txt cat\<close> is accepted: \<^verbatim>\<open>in.txt\<close> is opened on descriptor 3 and the
  stage \<^verbatim>\<open>cat\<close> reads from it. The line \<^verbatim>\<open>< in.txt\<close>, which names no program at
  all, is accepted too: its pipeline has no stage and descriptor 3 stays open.
\<close>

theorem input_redirection_before_command_accepted:
  "parseTokens sample_env [''|'', ''cat''] sample_os = (Inl PipeWithoutCommand, sample_os)
   \<and> parseTokens sample_env [''>'', ''out'', ''cat''] sample_os
       = (Inl OutRedirWithoutCommand, sample_os)
   \<and> parseTokens sample_env [''<'', ''in.txt'', ''cat''] sample_os =
       (Inr [\<lparr>simpleCommands =
               [\<lparr>commandName = Some ''cat'', args = Some [Str ''cat'', Null], argc = 1,
                 inputFD = 3, outputFD = 1, stderrFD = 2, noWait = 0,
                 execute = Some ExecuteProcess, pid = - 1\<rparr>],
             background = False, chainingOperator = None\<rparr>],
        sample_os\<lparr>fdtab := (fdtab sample_os)(3 \<mapsto> File ''in.txt'' RdOnly)\<rparr>)
   \<and> parseTokens sample_env [''<'', ''in.txt''] sample_os =
       (Inr [\<lparr>simpleCommands = [], background = False, chainingOperator = None\<rparr>],
        sample_os\<lparr>fdtab := (fdtab sample_os)(3 \<mapsto> File ''in.txt'' RdOnly)\<rparr>)"
  by (simp add: sample_defs parse_defs)

section \<open>The parser: closing a pipeline\<close>

lemma set_snd_fileNameToken: "set (snd (fileNameToken E ts)) \<subseteq> set ts"
proof -
  have "set (dropWhile (IGNORE E) ts) \<subseteq> set ts"
    by (auto dest: set_dropWhileD)
  then show ?thesis
    by (auto simp: fileNameToken_def split: list.splits)
qed

lemma parseStep_frame:
  assumes "parseStep E t ts command sc s = (Inr (command', sc', rest), s')"
  shows "background command' = background command"
    and "chainingOperator command' = chainingOperator command"
    and "set rest \<subseteq> set ts"
  using assms set_snd_fileNameToken [of E ts]
  by (auto simp: parseStep_def Let_def addSimpleCommand_def split_beta
      split: if_splits option.splits)

lemma parseSimpleCommands_frame:
  "parseSimpleCommands E ts command sc s = (Inr (command', sc', rest), s')
     \<Longrightarrow> background command' = background command
       \<and> set rest \<subseteq> set ts
       \<and> (case rest of [] \<Rightarrow> True | opr # _ \<Rightarrow> IS_CHAINING_OPERATOR E opr)"
proof (induction E ts command sc s rule: parseSimpleCommands.induct)
  case (1 E command sc s)
  then show ?case by simp
next
  case (2 E t ts command sc s)
  show ?case
  proof (cases "IS_CHAINING_OPERATOR E t")
    case True
    with "2.prems" show ?thesis by auto
  next
    case False
    with "2.prems" obtain c1 sc1 r1 s1 where
      step: "parseStep E t ts command sc s = (Inr (c1, sc1, r1), s1)" and
      loop: "parseSimpleCommands E r1 c1 sc1 s1 = (Inr (command', sc', rest), s')"
      by (auto split: prod.splits sum.splits)
    from "2.IH" [OF False step [symmetric] refl refl refl loop] parseStep_frame [OF step]
    show ?thesis
      by auto
  qed
qed

lemma closeCommand_fields:
  "chainingOperator (closeCommand E command sc rest) =
     (case rest of [] \<Rightarrow> None | opr # _ \<Rightarrow> Some opr)"
  "background (closeCommand E command sc rest) =
     (background command \<or> (case rest of [] \<Rightarrow> False | opr # _ \<Rightarrow> IS_BACKGROUND E opr))"
  by (auto simp: closeCommand_def addSimpleCommand_def COPY_def Let_def
      split: option.splits list.splits)

lemma executeSimpleCommands_marked:
  "executeSimpleCommands run True (map (\<lambda>st. st\<lparr>noWait := 1\<rparr>) stages) w =
     executeSimpleCommands run True stages w"
proof (induction stages arbitrary: w)
  case Nil
  show ?case by simp
next
  case (Cons st stages)
  from Cons.IH show ?case
    by (simp add: Let_def split: option.splits outcome.splits)
qed

section \<open>The parser: stages and pipes of one pipeline\<close>

subsection \<open>Descriptors handed out by the system\<close>

lemma pipe_call_fdtab:
  assumes "pipe_call s = Some (r, w, s')"
  shows "fdtab s r = None" and "fdtab s w = None" and "r \<noteq> w"
    and "fdtab s' = (fdtab s)(r \<mapsto> PipeRead (npipes s), w \<mapsto> PipeWrite (npipes s))"
proof -
  from assms obtain r0 where r0: "alloc_fd s = Some r0"
    by (auto simp: pipe_call_def split: option.splits)
  let ?s1 = "s\<lparr>fdtab := (fdtab s)(r0 \<mapsto> PipeRead (npipes s))\<rparr>"
  from assms r0 obtain w0 where w0: "alloc_fd ?s1 = Some w0"
    by (auto simp: pipe_call_def Let_def split: option.splits)
  from assms r0 w0 have eq: "r = r0" "w = w0"
    and s': "s' = ?s1\<lparr>fdtab := (fdtab ?s1)(w0 \<mapsto> PipeWrite (npipes s)), npipes := Suc (npipes s)\<rparr>"
    by (auto simp: pipe_call_def Let_def)
  from alloc_fd_free [OF r0] eq show "fdtab s r = None"
    by simp
  from alloc_fd_free [OF w0] have free: "((fdtab s)(r0 \<mapsto> PipeRead (npipes s))) w0 = None"
    by simp
  then show "r \<noteq> w"
    using eq by (auto split: if_splits)
  from free show "fdtab s w = None"
    using eq by (auto split: if_splits)
  from s' eq show "fdtab s' = (fdtab s)(r \<mapsto> PipeRead (npipes s), w \<mapsto> PipeWrite (npipes s))"
    by simp
qed

lemma open_call_fdtab:
  assumes "open_call name mode s = Some (fd, s')"
  shows "fdtab s fd = None" and "\<exists>f. fdtab s' = (fdtab s)(fd \<mapsto> File f mode)"
  using assms
  by (auto simp: open_call_def alloc_fd_free split: option.splits if_splits)

lemma pipe_call_map_le: "pipe_call s = Some (r, w, s') \<Longrightarrow> fdtab s \<subseteq>\<^sub>m fdtab s'"
  using pipe_call_fdtab [of s r w s']
  by (auto simp: map_le_def)

lemma open_call_map_le: "open_call name mode s = Some (fd, s') \<Longrightarrow> fdtab s \<subseteq>\<^sub>m fdtab s'"
  using open_call_fdtab [of name mode s fd s']
  by (auto simp: map_le_def)

lemma map_le_Some: "m \<subseteq>\<^sub>m m' \<Longrightarrow> m x = Some v \<Longrightarrow> m' x = Some v"
  by (metis domI map_le_def)

subsection \<open>Wiring is kept when descriptors are added\<close>

lemma linked_mono: "fdtab s \<subseteq>\<^sub>m fdtab s' \<Longrightarrow> linked s a b \<Longrightarrow> linked s' a b"
  by (auto simp: linked_def dest: map_le_Some)

lemma wired_mono: "fdtab s \<subseteq>\<^sub>m fdtab s' \<Longrightarrow> wired s stages \<Longrightarrow> wired s' stages"
  by (induction s stages rule: wired.induct) (auto dest: linked_mono)

lemma std_open_mono: "fdtab s \<subseteq>\<^sub>m fdtab s' \<Longrightarrow> std_open s \<Longrightarrow> std_open s'"
  by (auto simp: std_open_def dest: map_le_Some)

lemma input_default_or_file_mono:
  "fdtab s \<subseteq>\<^sub>m fdtab s' \<Longrightarrow> input_default_or_file s sc \<Longrightarrow> input_default_or_file s' sc"
  by (auto simp: input_default_or_file_def dest: map_le_Some)

lemma output_default_or_file_mono:
  "fdtab s \<subseteq>\<^sub>m fdtab s' \<Longrightarrow> output_default_or_file s sc \<Longrightarrow> output_default_or_file s' sc"
  by (auto simp: output_default_or_file_def dest: map_le_Some)

lemma linked_cong:
  "outputFD a' = outputFD a \<Longrightarrow> inputFD b' = inputFD b \<Longrightarrow> linked s a' b' = linked s a b"
  by (simp add: linked_def)

lemma wired_last_cong:
  "wired s (stages @ [a]) \<Longrightarrow> inputFD a' = inputFD a \<Longrightarrow> wired s (stages @ [a'])"
proof (induction stages rule: induct_list012)
  case 1
  show ?case by simp
next
  case (2 x)
  then show ?case by (simp add: linked_def)
next
  case (3 x y zs)
  then show ?case by simp
qed

lemma wired_snoc:
  "wired s (stages @ [a]) \<Longrightarrow> linked s a b \<Longrightarrow> wired s (stages @ [a, b])"
proof (induction stages rule: induct_list012)
  case 1
  then show ?case by simp
next
  case (2 x)
  then show ?case by simp
next
  case (3 x y zs)
  then show ?case by simp
qed

lemma wired_prefix: "wired s (stages @ [a]) \<Longrightarrow> wired s stages"
proof (induction stages rule: induct_list012)
  case 1
  show ?case by simp
next
  case (2 x)
  show ?case by simp
next
  case (3 x y zs)
  then show ?case by simp
qed

lemma wired_nth:
  "wired s stages \<Longrightarrow> Suc i < length stages \<Longrightarrow> linked s (stages ! i) (stages ! Suc i)"
proof (induction s stages arbitrary: i rule: wired.induct)
  case (1 s a b rest)
  then show ?case by (cases i) auto
next
  case (2 s a)
  then show ?case by simp
next
  case (3 s)
  then show ?case by simp
qed

subsection \<open>Stages without a name\<close>

lemma unnamed_iff:
  "unnamed sc \<longleftrightarrow>
     commandName sc = None \<and> args sc = None \<and> argc sc = 0 \<and> noWait sc = 0
     \<and> execute sc = None \<and> pid sc = -1"
  by (cases sc) (auto simp: unnamed_def initSimpleCommand_def)

lemma pushArgs_fields [simp]:
  "fst (pushArgs a sc) = 0"
  "inputFD (snd (pushArgs a sc)) = inputFD sc"
  "outputFD (snd (pushArgs a sc)) = outputFD sc"
  "stderrFD (snd (pushArgs a sc)) = stderrFD sc"
  by (simp_all add: pushArgs_def Let_def)

lemma pushArgs_named:
  "commandName sc \<noteq> None \<or> unnamed sc \<Longrightarrow> commandName (snd (pushArgs a sc)) \<noteq> None"
  by (auto simp: pushArgs_def Let_def COPY_def unnamed_iff)

lemma pushPaths_fields:
  "pushPaths paths sc = (r, sc')
     \<Longrightarrow> r = 0 \<and> inputFD sc' = inputFD sc \<and> outputFD sc' = outputFD sc
       \<and> stderrFD sc' = stderrFD sc"
proof (induction paths arbitrary: sc)
  case Nil
  then show ?case by simp
next
  case (Cons p paths)
  from Cons.prems have "pushPaths paths (snd (pushArgs p sc)) = (r, sc')"
    by (simp add: split_beta)
  from Cons.IH [OF this] show ?case
    by simp
qed

lemma pushPaths_named:
  "pushPaths paths sc = (r, sc') \<Longrightarrow> paths \<noteq> [] \<or> commandName sc \<noteq> None
     \<Longrightarrow> commandName sc \<noteq> None \<or> unnamed sc \<Longrightarrow> commandName sc' \<noteq> None"
proof (induction paths arbitrary: sc)
  case Nil
  then show ?case by simp
next
  case (Cons p paths)
  from Cons.prems(1) have rec: "pushPaths paths (snd (pushArgs p sc)) = (r, sc')"
    by (simp add: split_beta)
  have "commandName (snd (pushArgs p sc)) \<noteq> None"
    by (rule pushArgs_named [OF Cons.prems(3)])
  with Cons.IH [OF rec] show ?case
    by simp
qed

lemma glob_call_nonempty: "glob_call E s pattern = Some paths \<Longrightarrow> paths \<noteq> []"
  by (auto simp: glob_call_def split: option.splits list.splits)

subsection \<open>One step keeps the invariant\<close>

lemma parse_inv_mono:
  "fdtab s \<subseteq>\<^sub>m fdtab s' \<Longrightarrow> parse_inv s command sc \<Longrightarrow> parse_inv s' command sc"
  by (auto simp: parse_inv_def
      dest: std_open_mono wired_mono input_default_or_file_mono output_default_or_file_mono)

lemma hd_snoc_cong:
  "inputFD a' = inputFD a
     \<Longrightarrow> input_default_or_file s (hd (stages @ [a'])) = input_default_or_file s (hd (stages @ [a]))"
  by (cases stages) (simp_all add: input_default_or_file_def)

lemma parse_inv_cong:
  assumes "parse_inv s command sc"
      and "inputFD sc' = inputFD sc" and "outputFD sc' = outputFD sc"
      and "commandName sc' \<noteq> None \<or> unnamed sc'"
  shows "parse_inv s command sc'"
  using assms wired_last_cong [of s "simpleCommands command" sc sc']
    hd_snoc_cong [of sc' sc s "simpleCommands command"]
  by (simp add: parse_inv_def output_default_or_file_def)

lemma parse_inv_pipe:
  assumes "pipe_call s = Some (r, w, s')" and "parse_inv s command sc"
  shows "parse_inv s' (snd (addSimpleCommand command (sc\<lparr>outputFD := w, execute := e\<rparr>)))
           (initSimpleCommand\<lparr>inputFD := r\<rparr>)"
proof -
  let ?sc1 = "sc\<lparr>outputFD := w, execute := e\<rparr>"
  let ?sc2 = "initSimpleCommand\<lparr>inputFD := r\<rparr>"
  let ?stages = "simpleCommands command"
  note le = pipe_call_map_le [OF assms(1)]
  note tab = pipe_call_fdtab [OF assms(1)]
  from assms(2) have inv: "std_open s" "wired s (?stages @ [sc])"
    "input_default_or_file s (hd (?stages @ [sc]))"
    by (simp_all add: parse_inv_def)
  have std: "std_open s'"
    by (rule std_open_mono [OF le inv(1)])
  have "wired s' (?stages @ [sc])"
    by (rule wired_mono [OF le inv(2)])
  then have w1: "wired s' (?stages @ [?sc1])"
    by (rule wired_last_cong) simp
  have "linked s' ?sc1 ?sc2"
    using tab(3,4) by (auto simp: linked_def)
  with w1 have wired: "wired s' ((?stages @ [?sc1]) @ [?sc2])"
    by (simp add: wired_snoc)
  have "input_default_or_file s' (hd (?stages @ [sc]))"
    by (rule input_default_or_file_mono [OF le inv(3)])
  then have "input_default_or_file s' (hd (?stages @ [?sc1]))"
    by (simp add: hd_snoc_cong [of ?sc1 sc])
  then have first: "input_default_or_file s' (hd ((?stages @ [?sc1]) @ [?sc2]))"
    by (cases ?stages) simp_all
  have out: "output_default_or_file s' ?sc2"
    by (simp add: output_default_or_file_def initSimpleCommand_def)
  from inv(1) tab(1) have "r \<noteq> STDIN_FD"
    by (auto simp: std_open_def)
  then have notin: "inputFD ?sc2 \<noteq> STDIN_FD"
    by simp
  from std wired first out notin show ?thesis
    by (simp add: parse_inv_def addSimpleCommand_def)
qed

lemma parse_inv_out:
  assumes "open_call name mode s = Some (fd, s')" and "mode \<noteq> RdOnly"
      and "commandName sc \<noteq> None" and "parse_inv s command sc"
  shows "parse_inv s' command (sc\<lparr>outputFD := fd\<rparr>)"
proof -
  note le = open_call_map_le [OF assms(1)]
  from open_call_fdtab(2) [OF assms(1)] obtain f where f: "fdtab s' fd = Some (File f mode)"
    by auto
  have "parse_inv s' command sc"
    by (rule parse_inv_mono [OF le assms(4)])
  then have inv: "std_open s'" "wired s' (simpleCommands command @ [sc])"
    "input_default_or_file s' (hd (simpleCommands command @ [sc]))"
    "simpleCommands command = [] \<or> inputFD sc \<noteq> STDIN_FD"
    by (simp_all add: parse_inv_def)
  have "wired s' (simpleCommands command @ [sc\<lparr>outputFD := fd\<rparr>])"
    by (rule wired_last_cong [OF inv(2)]) simp
  moreover have "input_default_or_file s' (hd (simpleCommands command @ [sc\<lparr>outputFD := fd\<rparr>]))"
    using inv(3) by (simp add: hd_snoc_cong [of "sc\<lparr>outputFD := fd\<rparr>" sc])
  moreover have "output_default_or_file s' (sc\<lparr>outputFD := fd\<rparr>)"
    using f assms(2) by (cases mode) (simp_all add: output_default_or_file_def)
  ultimately show ?thesis
    using inv(1,4) assms(3) by (simp add: parse_inv_def)
qed

lemma unnamed_update [simp]:
  "unnamed (sc\<lparr>inputFD := fd\<rparr>) = unnamed sc"
  "unnamed (sc\<lparr>stderrFD := fd\<rparr>) = unnamed sc"
  by (simp_all add: unnamed_iff)

lemma parse_inv_in:
  assumes "open_call name RdOnly s = Some (fd, s')" and "inputFD sc = STDIN_FD"
      and "parse_inv s command sc"
  shows "parse_inv s' command (sc\<lparr>inputFD := fd\<rparr>)"
proof -
  note le = open_call_map_le [OF assms(1)]
  from open_call_fdtab(2) [OF assms(1)] obtain f where f: "fdtab s' fd = Some (File f RdOnly)"
    by auto
  have "parse_inv s' command sc"
    by (rule parse_inv_mono [OF le assms(3)])
  then have inv: "std_open s'" "output_default_or_file s' sc"
    "simpleCommands command = [] \<or> inputFD sc \<noteq> STDIN_FD"
    "commandName sc \<noteq> None \<or> unnamed sc"
    by (simp_all add: parse_inv_def)
  from inv(3) assms(2) have empty: "simpleCommands command = []"
    by simp
  have "input_default_or_file s' (sc\<lparr>inputFD := fd\<rparr>)"
    using f by (simp add: input_default_or_file_def)
  moreover have "output_default_or_file s' (sc\<lparr>inputFD := fd\<rparr>)"
    using inv(2) by (simp add: output_default_or_file_def)
  ultimately show ?thesis
    using inv(1,4) empty by (simp add: parse_inv_def)
qed

lemma parse_inv_err:
  assumes "open_call name mode s = Some (fd, s')" and "parse_inv s command sc"
  shows "parse_inv s' command (sc\<lparr>stderrFD := fd\<rparr>)"
proof -
  have "parse_inv s' command sc"
    by (rule parse_inv_mono [OF open_call_map_le [OF assms(1)] assms(2)])
  then show ?thesis
    by (rule parse_inv_cong) (use \<open>parse_inv s' command sc\<close> in \<open>simp_all add: parse_inv_def\<close>)
qed

lemma parse_inv_name: "parse_inv s command sc \<Longrightarrow> commandName sc \<noteq> None \<or> unnamed sc"
  by (simp add: parse_inv_def)

lemma parse_inv_pushArgs:
  assumes "parse_inv s command sc"
  shows "parse_inv s command (snd (pushArgs a sc))"
  by (rule parse_inv_cong [OF assms])
     (simp_all add: pushArgs_named [OF parse_inv_name [OF assms]])

lemma parse_inv_pushPaths:
  "pushPaths paths sc = (r, sc') \<Longrightarrow> parse_inv s command sc \<Longrightarrow> parse_inv s command sc'"
proof (induction paths arbitrary: sc)
  case Nil
  then show ?case by simp
next
  case (Cons p paths)
  from Cons.prems(1) have rec: "pushPaths paths (snd (pushArgs p sc)) = (r, sc')"
    by (simp add: split_beta)
  show ?case
    by (rule Cons.IH [OF rec parse_inv_pushArgs [OF Cons.prems(2)]])
qed

lemma parseStep_inv:
  assumes "parseStep E t ts command sc s = (Inr (command', sc', rest), s')"
      and "parse_inv s command sc"
  shows "parse_inv s' command' sc'"
proof -
  note name = parse_inv_name [OF assms(2)]
  consider (pipe) "IS_PIPE E t"
    | (out) "\<not> IS_PIPE E t" "IS_FILE_OUT_REDIR E t"
    | (inp) "\<not> IS_PIPE E t" "\<not> IS_FILE_OUT_REDIR E t" "IS_FILE_IN_REDIR E t"
    | (err) "\<not> IS_PIPE E t" "\<not> IS_FILE_OUT_REDIR E t" "\<not> IS_FILE_IN_REDIR E t"
            "IS_STDERR_REDIR E t"
    | (ign) "\<not> IS_PIPE E t" "\<not> is_redirection E t" "IGNORE E t"
    | (bang) "\<not> IS_PIPE E t" "\<not> is_redirection E t" "\<not> IGNORE E t"
             "commandName sc = None \<and> t \<noteq> [] \<and> hd t = CHR ''!'' \<and> length t > 1"
    | (word) "\<not> IS_PIPE E t" "\<not> is_redirection E t" "\<not> IGNORE E t"
             "\<not> (commandName sc = None \<and> t \<noteq> [] \<and> hd t = CHR ''!'' \<and> length t > 1)"
    unfolding is_redirection_def by blast
  then show ?thesis
  proof cases
    case pipe
    with assms(1) obtain name r w where
      p: "pipe_call s = Some (r, w, s')" and
      c: "command' = snd (addSimpleCommand command
                            (sc\<lparr>outputFD := w, execute := Some (getExecutionFunction name)\<rparr>))" and
      n: "sc' = initSimpleCommand\<lparr>inputFD := r\<rparr>"
      by (auto simp: parseStep_def Let_def split: option.splits if_splits)
    show ?thesis
      unfolding c n by (rule parse_inv_pipe [OF p assms(2)])
  next
    case out
    with assms(1) obtain name mode fd where
      o: "open_call name mode s = Some (fd, s')" and m: "mode \<noteq> RdOnly" and
      n: "commandName sc \<noteq> None" and c: "command' = command" "sc' = sc\<lparr>outputFD := fd\<rparr>"
      by (auto simp: parseStep_def split_beta split: option.splits if_splits)
    show ?thesis
      unfolding c by (rule parse_inv_out [OF o m n assms(2)])
  next
    case inp
    with assms(1) obtain name fd where
      o: "open_call name RdOnly s = Some (fd, s')" and i: "inputFD sc = STDIN_FD" and
      c: "command' = command" "sc' = sc\<lparr>inputFD := fd\<rparr>"
      by (auto simp: parseStep_def split_beta split: option.splits if_splits)
    show ?thesis
      unfolding c by (rule parse_inv_in [OF o i assms(2)])
  next
    case err
    with assms(1) obtain name fd where
      o: "open_call name WrCreatTrunc s = Some (fd, s')" and
      c: "command' = command" "sc' = sc\<lparr>stderrFD := fd\<rparr>"
      by (auto simp: parseStep_def split_beta split: option.splits if_splits)
    show ?thesis
      unfolding c by (rule parse_inv_err [OF o assms(2)])
  next
    case ign
    with assms show ?thesis
      by (auto simp: parseStep_def is_redirection_def)
  next
    case bang
    with assms(1) have c: "command' = command" "s' = s"
      "sc' = snd (pushArgs (tl t) (snd (pushArgs ''history'' sc)))"
      by (auto simp: parseStep_def is_redirection_def split_beta split: if_splits)
    show ?thesis
      unfolding c by (intro parse_inv_pushArgs assms(2))
  next
    case word
    with assms(1) obtain paths r where
      p: "pushPaths paths sc = (r, sc')" and c: "command' = command" "s' = s"
      by (auto simp: parseStep_def is_redirection_def split: if_splits option.splits prod.splits)
    show ?thesis
      unfolding c by (rule parse_inv_pushPaths [OF p assms(2)])
  qed
qed

lemma parseStep_count:
  assumes "parseStep E t ts command sc s = (Inr (command', sc', rest), s')"
      and "commandName sc \<noteq> None \<or> unnamed sc"
  shows "length (simpleCommands command') =
           length (simpleCommands command) + (if IS_PIPE E t then 1 else 0)"
    and "rest = (if \<not> IS_PIPE E t \<and> is_redirection E t then snd (fileNameToken E ts) else ts)"
    and "(commandName sc' \<noteq> None) =
           (if IS_PIPE E t then False
            else if is_redirection E t \<or> IGNORE E t then commandName sc \<noteq> None
            else True)"
proof -
  consider (pipe) "IS_PIPE E t"
    | (redir) "\<not> IS_PIPE E t" "is_redirection E t"
    | (ign) "\<not> IS_PIPE E t" "\<not> is_redirection E t" "IGNORE E t"
    | (bang) "\<not> IS_PIPE E t" "\<not> is_redirection E t" "\<not> IGNORE E t"
             "commandName sc = None \<and> t \<noteq> [] \<and> hd t = CHR ''!'' \<and> length t > 1"
    | (word) "\<not> IS_PIPE E t" "\<not> is_redirection E t" "\<not> IGNORE E t"
             "\<not> (commandName sc = None \<and> t \<noteq> [] \<and> hd t = CHR ''!'' \<and> length t > 1)"
    by blast
  then have "length (simpleCommands command') =
           length (simpleCommands command) + (if IS_PIPE E t then 1 else 0)
    \<and> rest = (if \<not> IS_PIPE E t \<and> is_redirection E t then snd (fileNameToken E ts) else ts)
    \<and> (commandName sc' \<noteq> None) =
           (if IS_PIPE E t then False
            else if is_redirection E t \<or> IGNORE E t then commandName sc \<noteq> None
            else True)"
  proof cases
    case pipe
    with assms(1) show ?thesis
      by (auto simp: parseStep_def Let_def addSimpleCommand_def initSimpleCommand_def
          split: option.splits if_splits)
  next
    case redir
    with assms(1) show ?thesis
      by (auto simp: parseStep_def is_redirection_def split_beta split: option.splits if_splits)
  next
    case ign
    with assms(1) show ?thesis
      by (auto simp: parseStep_def is_redirection_def)
  next
    case bang
    with assms(1) have c: "command' = command" "rest = ts"
      "sc' = snd (pushArgs (tl t) (snd (pushArgs ''history'' sc)))"
      by (auto simp: parseStep_def is_redirection_def split_beta split: if_splits)
    have "commandName sc' \<noteq> None"
      unfolding c by (intro pushArgs_named disjI1 assms(2))
    with c bang show ?thesis
      by simp
  next
    case word
    with assms(1) obtain paths r where
      g: "glob_call E s (removeQuotes E t) = Some paths" and
      p: "pushPaths paths sc = (r, sc')" and c: "command' = command" "rest = ts"
      by (auto simp: parseStep_def is_redirection_def split: if_splits option.splits prod.splits)
    from glob_call_nonempty [OF g] have "paths \<noteq> [] \<or> commandName sc \<noteq> None"
      by simp
    from pushPaths_named [OF p this assms(2)] c word show ?thesis
      by simp
  qed
  then show "length (simpleCommands command') =
           length (simpleCommands command) + (if IS_PIPE E t then 1 else 0)"
    and "rest = (if \<not> IS_PIPE E t \<and> is_redirection E t then snd (fileNameToken E ts) else ts)"
    and "(commandName sc' \<noteq> None) =
           (if IS_PIPE E t then False
            else if is_redirection E t \<or> IGNORE E t then commandName sc \<noteq> None
            else True)"
    by blast+
qed

subsection \<open>The loop\<close>

lemma parseSimpleCommands_inv:
  "parseSimpleCommands E ts command sc s = (Inr (command', sc', rest), s')
     \<Longrightarrow> parse_inv s command sc
     \<Longrightarrow> parse_inv s' command' sc'
       \<and> length (simpleCommands command') = length (simpleCommands command) + pipe_operators E ts
       \<and> (commandName sc' \<noteq> None) = word_after_last_pipe E (commandName sc \<noteq> None) ts"
proof (induction E ts command sc s rule: parseSimpleCommands.induct)
  case (1 E command sc s)
  then show ?case by simp
next
  case (2 E t ts command sc s)
  show ?case
  proof (cases "IS_CHAINING_OPERATOR E t")
    case True
    with "2.prems" show ?thesis by auto
  next
    case False
    with "2.prems"(1) obtain c1 sc1 r1 s1 where
      step: "parseStep E t ts command sc s = (Inr (c1, sc1, r1), s1)" and
      loop: "parseSimpleCommands E r1 c1 sc1 s1 = (Inr (command', sc', rest), s')"
      by (auto split: prod.splits sum.splits)
    have inv1: "parse_inv s1 c1 sc1"
      by (rule parseStep_inv [OF step "2.prems"(2)])
    note cnt = parseStep_count [OF step parse_inv_name [OF "2.prems"(2)]]
    note IH = "2.IH" [OF False step [symmetric] refl refl refl loop inv1]
    from IH have "parse_inv s' command' sc'"
      by simp
    moreover from IH cnt(1,2) False
    have "length (simpleCommands command') =
            length (simpleCommands command) + pipe_operators E (t # ts)"
      by (simp split: if_splits)
    moreover from IH cnt(2,3) False
    have "(commandName sc' \<noteq> None) = word_after_last_pipe E (commandName sc \<noteq> None) (t # ts)"
      by (simp split: if_splits)
    ultimately show ?thesis
      by simp
  qed
qed

subsection \<open>The chain of one pipeline\<close>

lemma parseTokens_loop_extends:
  "parseTokens_loop E ts chain s = (Inr chain', s')
     \<Longrightarrow> \<exists>ext. chain' = chain @ ext \<and> (ext = [] \<longrightarrow> ts = [] \<and> s' = s)"
proof (induction E ts chain s rule: parseTokens_loop.induct)
  case (1 E chain s)
  then show ?case by simp
next
  case (2 E t ts chain s)
  from "2.prems"(1) obtain command sc rest s1 where
    inner: "parseSimpleCommands E (t # ts) initCommand initSimpleCommand s = (Inr (command, sc, rest), s1)" and
    outer: "parseTokens_loop E (case rest of [] \<Rightarrow> [] | _ # r \<Rightarrow> r)
              (snd (addCommandToChain chain (closeCommand E command sc rest))) s1 = (Inr chain', s')"
    by (auto split: prod.splits sum.splits simp del: parseSimpleCommands.simps)
  from "2.IH" [OF inner [symmetric] refl refl refl outer]
  obtain ext where "chain' = (chain @ [closeCommand E command sc rest]) @ ext"
    by (auto simp: addCommandToChain_def)
  then have "chain' = chain @ (closeCommand E command sc rest # ext)"
    by simp
  then show ?case
    by blast
qed

lemma parseTokens_single:
  assumes "parseTokens E tokens s = (Inr [c], s')"
  shows "\<exists>command sc rest.
           parseSimpleCommands E tokens initCommand initSimpleCommand s = (Inr (command, sc, rest), s')
           \<and> c = closeCommand E command sc rest"
proof (cases tokens)
  case Nil
  with assms show ?thesis
    by (simp add: parseTokens_def initCommandChain_def)
next
  case (Cons t ts)
  with assms have loop: "parseTokens_loop E (t # ts) [] s = (Inr [c], s')"
    by (simp add: parseTokens_def initCommandChain_def)
  then obtain command sc rest s1 where
    inner: "parseSimpleCommands E (t # ts) initCommand initSimpleCommand s = (Inr (command, sc, rest), s1)" and
    outer: "parseTokens_loop E (case rest of [] \<Rightarrow> [] | _ # r \<Rightarrow> r)
              [closeCommand E command sc rest] s1 = (Inr [c], s')"
    by (auto split: prod.splits sum.splits simp: addCommandToChain_def
        simp del: parseSimpleCommands.simps)
  from parseTokens_loop_extends [OF outer]
  have "c = closeCommand E command sc rest" and "s' = s1"
    by auto
  with inner Cons show ?thesis
    by blast
qed

lemma simpleCommands_closeCommand:
  "simpleCommands (closeCommand E command sc rest) =
     (case commandName sc of
        None \<Rightarrow> simpleCommands command
      | Some name \<Rightarrow> simpleCommands command @ [sc\<lparr>execute := Some (getExecutionFunction name)\<rparr>])"
  by (simp add: closeCommand_def addSimpleCommand_def Let_def split: option.splits)

text \<open>
  The shape of a chain of one pipeline, with or without a word after the last pipe
  operator: the stages, their wiring, and where the first reads and the last writes.
\<close>

lemma parsed_pipeline_shape:
  assumes "parseTokens E tokens s = (Inr [c], s')" and "std_open s"
  shows "length (simpleCommands c) =
           pipe_operators E tokens + (if word_after_last_pipe E False tokens then 1 else 0)
       \<and> (\<forall>i. Suc i < length (simpleCommands c) \<longrightarrow>
              linked s' (simpleCommands c ! i) (simpleCommands c ! Suc i))
       \<and> (simpleCommands c \<noteq> [] \<longrightarrow> input_default_or_file s' (hd (simpleCommands c)))
       \<and> (word_after_last_pipe E False tokens \<longrightarrow>
            output_default_or_file s' (last (simpleCommands c)))"
proof -
  from parseTokens_single [OF assms(1)] obtain command sc rest where
    inner: "parseSimpleCommands E tokens initCommand initSimpleCommand s = (Inr (command, sc, rest), s')" and
    c: "c = closeCommand E command sc rest"
    by blast
  have init: "parse_inv s initCommand initSimpleCommand"
    using assms(2)
    by (simp add: parse_inv_def initCommand_def input_default_or_file_def
        output_default_or_file_def initSimpleCommand_def unnamed_iff)
  from parseSimpleCommands_inv [OF inner init]
  have inv: "parse_inv s' command sc"
    and len: "length (simpleCommands command) = pipe_operators E tokens"
    and named: "(commandName sc \<noteq> None) = word_after_last_pipe E False tokens"
    by (simp_all add: initCommand_def initSimpleCommand_def)
  from inv have w: "wired s' (simpleCommands command @ [sc])"
    and first: "input_default_or_file s' (hd (simpleCommands command @ [sc]))"
    and out: "output_default_or_file s' sc"
    by (simp_all add: parse_inv_def)
  show ?thesis
  proof (cases "commandName sc")
    case None
    then have stages: "simpleCommands c = simpleCommands command"
      by (simp add: c simpleCommands_closeCommand)
    from None named have no_word: "\<not> word_after_last_pipe E False tokens"
      by simp
    have "wired s' (simpleCommands c)"
      unfolding stages by (rule wired_prefix [OF w])
    then have "\<forall>i. Suc i < length (simpleCommands c) \<longrightarrow>
              linked s' (simpleCommands c ! i) (simpleCommands c ! Suc i)"
      by (simp add: wired_nth)
    moreover have "simpleCommands c \<noteq> [] \<longrightarrow> input_default_or_file s' (hd (simpleCommands c))"
      using first unfolding stages by (cases "simpleCommands command") simp_all
    ultimately show ?thesis
      using no_word len by (simp add: stages)
  next
    case (Some name)
    let ?last = "sc\<lparr>execute := Some (getExecutionFunction name)\<rparr>"
    from Some have stages: "simpleCommands c = simpleCommands command @ [?last]"
      by (simp add: c simpleCommands_closeCommand)
    from Some named have word: "word_after_last_pipe E False tokens"
      by simp
    have "wired s' (simpleCommands c)"
      unfolding stages by (rule wired_last_cong [OF w]) simp
    then have "\<forall>i. Suc i < length (simpleCommands c) \<longrightarrow>
              linked s' (simpleCommands c ! i) (simpleCommands c ! Suc i)"
      by (simp add: wired_nth)
    moreover have "input_default_or_file s' (hd (simpleCommands c))"
      using first unfolding stages by (simp add: hd_snoc_cong [of ?last sc])
    moreover have "output_default_or_file s' (last (simpleCommands c))"
      using out unfolding stages by (simp add: output_default_or_file_def)
    ultimately show ?thesis
      using word len by (simp add: stages)
  qed
qed

section \<open>The parser: what a successful step did\<close>

lemma open_call_Some:
  assumes "open_call name mode s = Some (fd, s')"
  shows "\<exists>f. name = Some f \<and> fdtab s fd = None \<and> fdtab s' = (fdtab s)(fd \<mapsto> File f mode)"
  using assms
  by (auto simp: open_call_def alloc_fd_free split: option.splits if_splits)

lemma parseStep_success_cases [consumes 1, case_names pipe out inp err ign push]:
  assumes "parseStep E t ts command sc s = (Inr (command', sc', rest), s')"
  obtains
    (pipe) name r w where
      "IS_PIPE E t" "commandName sc = Some name" "outputFD sc = STDOUT_FD"
      "pipe_call s = Some (r, w, s')"
      "command' = snd (addSimpleCommand command
                         (sc\<lparr>outputFD := w, execute := Some (getExecutionFunction name)\<rparr>))"
      "sc' = initSimpleCommand\<lparr>inputFD := r\<rparr>" "rest = ts"
  | (out) f fd where
      "\<not> IS_PIPE E t" "IS_FILE_OUT_REDIR E t" "commandName sc \<noteq> None"
      "outputFD sc = STDOUT_FD" "fst (fileNameToken E ts) = Some f"
      "rest = snd (fileNameToken E ts)"
      "open_call (Some f) (if IS_APPEND E t then WrCreatAppend else WrCreatTrunc) s = Some (fd, s')"
      "command' = command" "sc' = sc\<lparr>outputFD := fd\<rparr>"
  | (inp) f fd where
      "\<not> IS_PIPE E t" "\<not> IS_FILE_OUT_REDIR E t" "IS_FILE_IN_REDIR E t"
      "inputFD sc = STDIN_FD" "fst (fileNameToken E ts) = Some f"
      "rest = snd (fileNameToken E ts)"
      "open_call (Some f) RdOnly s = Some (fd, s')"
      "command' = command" "sc' = sc\<lparr>inputFD := fd\<rparr>"
  | (err) f fd where
      "\<not> IS_PIPE E t" "\<not> IS_FILE_OUT_REDIR E t" "\<not> IS_FILE_IN_REDIR E t"
      "IS_STDERR_REDIR E t" "stderrFD sc = STDERR_FD" "fst (fileNameToken E ts) = Some f"
      "rest = snd (fileNameToken E ts)"
      "open_call (Some f) WrCreatTrunc s = Some (fd, s')"
      "command' = command" "sc' = sc\<lparr>stderrFD := fd\<rparr>"
  | (ign) "\<not> IS_PIPE E t" "\<not> is_redirection E t" "IGNORE E t"
      "command' = command" "sc' = sc" "rest = ts" "s' = s"
  | (push) "\<not> IS_PIPE E t" "\<not> is_redirection E t" "\<not> IGNORE E t"
      "command' = command" "rest = ts" "s' = s"
      "inputFD sc' = inputFD sc" "outputFD sc' = outputFD sc" "stderrFD sc' = stderrFD sc"
      "noWait sc' = noWait sc"
proof -
  consider (a) "IS_PIPE E t"
    | (b) "\<not> IS_PIPE E t" "IS_FILE_OUT_REDIR E t"
    | (c) "\<not> IS_PIPE E t" "\<not> IS_FILE_OUT_REDIR E t" "IS_FILE_IN_REDIR E t"
    | (d) "\<not> IS_PIPE E t" "\<not> IS_FILE_OUT_REDIR E t" "\<not> IS_FILE_IN_REDIR E t"
          "IS_STDERR_REDIR E t"
    | (e) "\<not> IS_PIPE E t" "\<not> is_redirection E t" "IGNORE E t"
    | (f) "\<not> IS_PIPE E t" "\<not> is_redirection E t" "\<not> IGNORE E t"
    unfolding is_redirection_def by blast
  then show thesis
  proof cases
    case a
    with assms obtain name r w where
      "commandName sc = Some name" "outputFD sc = STDOUT_FD" "pipe_call s = Some (r, w, s')"
      "command' = snd (addSimpleCommand command
                         (sc\<lparr>outputFD := w, execute := Some (getExecutionFunction name)\<rparr>))"
      "sc' = initSimpleCommand\<lparr>inputFD := r\<rparr>" "rest = ts"
      by (auto simp: parseStep_def Let_def split: option.splits if_splits)
    with a show thesis
      by (rule_tac pipe)
  next
    case b
    let ?mode = "if IS_APPEND E t then WrCreatAppend else WrCreatTrunc"
    from b assms obtain fd where
      n: "commandName sc \<noteq> None" "outputFD sc = STDOUT_FD" and
      o: "open_call (fst (fileNameToken E ts)) ?mode s = Some (fd, s')" and
      c: "rest = snd (fileNameToken E ts)" "command' = command" "sc' = sc\<lparr>outputFD := fd\<rparr>"
      by (auto simp: parseStep_def split_beta split: option.splits if_splits)
    from open_call_Some [OF o] obtain f where f: "fst (fileNameToken E ts) = Some f"
      by blast
    from o f have "open_call (Some f) ?mode s = Some (fd, s')"
      by simp
    with b n f c show thesis
      by (rule_tac out)
  next
    case c
    from c assms obtain fd where
      n: "inputFD sc = STDIN_FD" and
      o: "open_call (fst (fileNameToken E ts)) RdOnly s = Some (fd, s')" and
      r: "rest = snd (fileNameToken E ts)" "command' = command" "sc' = sc\<lparr>inputFD := fd\<rparr>"
      by (auto simp: parseStep_def split_beta split: option.splits if_splits)
    from open_call_Some [OF o] obtain f where f: "fst (fileNameToken E ts) = Some f"
      by blast
    from o f have "open_call (Some f) RdOnly s = Some (fd, s')"
      by simp
    with c n f r show thesis
      by (rule_tac inp)
  next
    case d
    from d assms obtain fd where
      n: "stderrFD sc = STDERR_FD" and
      o: "open_call (fst (fileNameToken E ts)) WrCreatTrunc s = Some (fd, s')" and
      r: "rest = snd (fileNameToken E ts)" "command' = command" "sc' = sc\<lparr>stderrFD := fd\<rparr>"
      by (auto simp: parseStep_def split_beta split: option.splits if_splits)
    from open_call_Some [OF o] obtain f where f: "fst (fileNameToken E ts) = Some f"
      by blast
    from o f have "open_call (Some f) WrCreatTrunc s = Some (fd, s')"
      by simp
    with d n f r show thesis
      by (rule_tac err)
  next
    case e
    with assms have "command' = command" "sc' = sc" "rest = ts" "s' = s"
      by (auto simp: parseStep_def is_redirection_def)
    with e show thesis
      by (rule_tac ign)
  next
    case f
    show thesis
    proof (cases "commandName sc = None \<and> t \<noteq> [] \<and> hd t = CHR ''!'' \<and> length t > 1")
      case True
      with f assms have c: "command' = command" "rest = ts" "s' = s"
        "sc' = snd (pushArgs (tl t) (snd (pushArgs ''history'' sc)))"
        by (auto simp: parseStep_def is_redirection_def split_beta split: if_splits)
      have "inputFD sc' = inputFD sc" "outputFD sc' = outputFD sc" "stderrFD sc' = stderrFD sc"
        "noWait sc' = noWait sc"
        unfolding c by (simp_all add: pushArgs_def Let_def)
      with f c show thesis
        by (rule_tac push)
    next
      case False
      with f assms obtain paths r where
        p: "pushPaths paths sc = (r, sc')" and c: "command' = command" "rest = ts" "s' = s"
        by (auto simp: parseStep_def is_redirection_def split: if_splits option.splits prod.splits)
      have "noWait sc' = noWait sc"
        using p
      proof (induction paths arbitrary: sc)
        case Nil
        then show ?case by simp
      next
        case (Cons q paths)
        from Cons.prems have "pushPaths paths (snd (pushArgs q sc)) = (r, sc')"
          by (simp add: split_beta pushArgs_def Let_def)
        from Cons.IH [OF this] show ?case
          by (simp add: pushArgs_def Let_def)
      qed
      with pushPaths_fields [OF p] f c show thesis
        by (rule_tac push) simp_all
    qed
  qed
qed

section \<open>The parser: the ends of one pipeline\<close>

lemma parseStep_map_le:
  assumes "parseStep E t ts command sc s = (Inr (command', sc', rest), s')"
  shows "fdtab s \<subseteq>\<^sub>m fdtab s'"
  using assms
  by (cases rule: parseStep_success_cases)
     (auto intro: pipe_call_map_le open_call_map_le)

lemma parseStep_rest:
  assumes "parseStep E t ts command sc s = (Inr (command', sc', rest), s')"
  shows "rest = (if \<not> IS_PIPE E t \<and> is_redirection E t then snd (fileNameToken E ts) else ts)"
  using assms
  by (cases rule: parseStep_success_cases) (auto simp: is_redirection_def)

lemma parseSimpleCommands_map_le:
  "parseSimpleCommands E ts command sc s = (Inr (command', sc', rest), s')
     \<Longrightarrow> fdtab s \<subseteq>\<^sub>m fdtab s'"
proof (induction E ts command sc s rule: parseSimpleCommands.induct)
  case (1 E command sc s)
  then show ?case by simp
next
  case (2 E t ts command sc s)
  show ?case
  proof (cases "IS_CHAINING_OPERATOR E t")
    case True
    with "2.prems" show ?thesis by auto
  next
    case False
    with "2.prems" obtain c1 sc1 r1 s1 where
      step: "parseStep E t ts command sc s = (Inr (c1, sc1, r1), s1)" and
      loop: "parseSimpleCommands E r1 c1 sc1 s1 = (Inr (command', sc', rest), s')"
      by (auto split: prod.splits sum.splits)
    from "2.IH" [OF False step [symmetric] refl refl refl loop] parseStep_map_le [OF step]
    show ?thesis
      by (rule map_le_trans [rotated])
  qed
qed

lemma map_le_None: "m \<subseteq>\<^sub>m m' \<Longrightarrow> m' x = None \<Longrightarrow> m x = None"
  by (metis map_le_Some not_Some_eq)

lemma writes_to_mono:
  "fdtab s \<subseteq>\<^sub>m fdtab s' \<Longrightarrow> writes_to s0 s sc target \<Longrightarrow> writes_to s0 s' sc target"
  by (auto simp: writes_to_def dest: map_le_Some split: option.splits)

lemma reads_from_mono:
  "fdtab s \<subseteq>\<^sub>m fdtab s' \<Longrightarrow> reads_from s0 s sc target \<Longrightarrow> reads_from s0 s' sc target"
  by (auto simp: reads_from_def dest: map_le_Some split: option.splits)

lemma writes_to_cong:
  "writes_to s0 s sc target \<Longrightarrow> outputFD sc' = outputFD sc \<Longrightarrow> writes_to s0 s sc' target"
  by (auto simp: writes_to_def split: option.splits)

lemma reads_from_cong:
  "reads_from s0 s sc target \<Longrightarrow> inputFD sc' = inputFD sc \<Longrightarrow> reads_from s0 s sc' target"
  by (auto simp: reads_from_def split: option.splits)

lemma opened_not_std:
  assumes "std_open s" and "fdtab s fd = None"
  shows "fd \<noteq> STDIN_FD" and "fd \<noteq> STDOUT_FD" and "fd \<noteq> STDERR_FD"
  using assms by (auto simp: std_open_def)

subsection \<open>Where the current stage writes\<close>

lemma parseStep_writes_to:
  assumes step: "parseStep E t ts command sc s = (Inr (command', sc', rest), s')"
      and std: "std_open s" and le: "fdtab s0 \<subseteq>\<^sub>m fdtab s"
      and inv: "writes_to s0 s sc acc"
  shows "writes_to s0 s' sc'
           (if IS_PIPE E t then None
            else if IS_FILE_OUT_REDIR E t then
              (case fst (fileNameToken E ts) of
                 None \<Rightarrow> None
               | Some f \<Rightarrow> Some (f, if IS_APPEND E t then WrCreatAppend else WrCreatTrunc))
            else acc)"
  using step
proof (cases rule: parseStep_success_cases)
  case (pipe name r w)
  then show ?thesis
    by (simp add: writes_to_def initSimpleCommand_def)
next
  case (out f fd)
  from open_call_Some [OF out(7)] have free: "fdtab s fd = None"
    and tab: "fdtab s' fd = Some (File f (if IS_APPEND E t then WrCreatAppend else WrCreatTrunc))"
    by auto
  from opened_not_std(2) [OF std free] map_le_None [OF le free] tab out
  show ?thesis
    by (simp add: writes_to_def)
next
  case (inp f fd)
  have "writes_to s0 s' sc' acc"
    by (rule writes_to_cong [OF writes_to_mono [OF open_call_map_le [OF inp(7)] inv]])
       (simp add: inp)
  with inp show ?thesis
    by simp
next
  case (err f fd)
  have "writes_to s0 s' sc' acc"
    by (rule writes_to_cong [OF writes_to_mono [OF open_call_map_le [OF err(8)] inv]])
       (simp add: err)
  with err show ?thesis
    by simp
next
  case ign
  with inv show ?thesis
    by (simp add: is_redirection_def)
next
  case push
  have "writes_to s0 s' sc' acc"
    by (rule writes_to_cong) (use inv push in simp_all)
  with push show ?thesis
    by (simp add: is_redirection_def)
qed

lemma parseSimpleCommands_writes_to:
  "parseSimpleCommands E ts command sc s = (Inr (command', sc', rest), s')
     \<Longrightarrow> std_open s \<Longrightarrow> fdtab s0 \<subseteq>\<^sub>m fdtab s \<Longrightarrow> writes_to s0 s sc acc
     \<Longrightarrow> writes_to s0 s' sc' (last_output_target E acc ts)"
proof (induction E ts command sc s arbitrary: acc rule: parseSimpleCommands.induct)
  case (1 E command sc s)
  then show ?case by simp
next
  case (2 E t ts command sc s)
  show ?case
  proof (cases "IS_CHAINING_OPERATOR E t")
    case True
    with "2.prems" show ?thesis by auto
  next
    case False
    with "2.prems"(1) obtain c1 sc1 r1 s1 where
      step: "parseStep E t ts command sc s = (Inr (c1, sc1, r1), s1)" and
      loop: "parseSimpleCommands E r1 c1 sc1 s1 = (Inr (command', sc', rest), s')"
      by (auto split: prod.splits sum.splits)
    note le1 = parseStep_map_le [OF step]
    have std1: "std_open s1"
      by (rule std_open_mono [OF le1 "2.prems"(2)])
    have le01: "fdtab s0 \<subseteq>\<^sub>m fdtab s1"
      by (rule map_le_trans [OF "2.prems"(3) le1])
    note w1 = parseStep_writes_to [OF step "2.prems"(2,3,4)]
    note IH = "2.IH" [OF False step [symmetric] refl refl refl loop std1 le01 w1]
    from IH parseStep_rest [OF step] False show ?thesis
      by (auto simp: is_redirection_def split: if_splits)
  qed
qed

subsection \<open>Where the first stage reads\<close>

lemma parseStep_hd:
  assumes "parseStep E t ts command sc s = (Inr (command', sc', rest), s')"
      and "simpleCommands command \<noteq> []"
  shows "simpleCommands command' \<noteq> []"
    and "hd (simpleCommands command') = hd (simpleCommands command)"
  using assms
  by (cases rule: parseStep_success_cases; simp add: addSimpleCommand_def)+

lemma parseSimpleCommands_hd:
  "parseSimpleCommands E ts command sc s = (Inr (command', sc', rest), s')
     \<Longrightarrow> simpleCommands command \<noteq> []
     \<Longrightarrow> simpleCommands command' \<noteq> []
       \<and> hd (simpleCommands command') = hd (simpleCommands command)"
proof (induction E ts command sc s rule: parseSimpleCommands.induct)
  case (1 E command sc s)
  then show ?case by simp
next
  case (2 E t ts command sc s)
  show ?case
  proof (cases "IS_CHAINING_OPERATOR E t")
    case True
    with "2.prems" show ?thesis by auto
  next
    case False
    with "2.prems"(1) obtain c1 sc1 r1 s1 where
      step: "parseStep E t ts command sc s = (Inr (c1, sc1, r1), s1)" and
      loop: "parseSimpleCommands E r1 c1 sc1 s1 = (Inr (command', sc', rest), s')"
      by (auto split: prod.splits sum.splits)
    note h = parseStep_hd [OF step "2.prems"(2)]
    from "2.IH" [OF False step [symmetric] refl refl refl loop h(1)] h(2)
    show ?thesis
      by simp
  qed
qed

lemma parseStep_reads_from:
  assumes step: "parseStep E t ts command sc s = (Inr (command', sc', rest), s')"
      and first: "simpleCommands command = []"
      and std: "std_open s" and le: "fdtab s0 \<subseteq>\<^sub>m fdtab s"
      and inv: "reads_from s0 s sc acc"
  shows "if IS_PIPE E t
         then simpleCommands command' \<noteq> [] \<and> reads_from s0 s' (hd (simpleCommands command')) acc
         else simpleCommands command' = []
              \<and> reads_from s0 s' sc'
                  (if \<not> IS_FILE_OUT_REDIR E t \<and> IS_FILE_IN_REDIR E t
                   then fst (fileNameToken E ts) else acc)"
  using step
proof (cases rule: parseStep_success_cases)
  case (pipe name r w)
  have "reads_from s0 s' (sc\<lparr>outputFD := w, execute := Some (getExecutionFunction name)\<rparr>) acc"
    by (rule reads_from_cong [OF reads_from_mono [OF pipe_call_map_le [OF pipe(4)] inv]]) simp
  with pipe first show ?thesis
    by (simp add: addSimpleCommand_def)
next
  case (out f fd)
  have "reads_from s0 s' sc' acc"
    by (rule reads_from_cong [OF reads_from_mono [OF open_call_map_le [OF out(7)] inv]])
       (simp add: out)
  with out first show ?thesis
    by simp
next
  case (inp f fd)
  from open_call_Some [OF inp(7)] have free: "fdtab s fd = None"
    and tab: "fdtab s' fd = Some (File f RdOnly)"
    by auto
  from opened_not_std(1) [OF std free] map_le_None [OF le free] tab inp first
  show ?thesis
    by (simp add: reads_from_def)
next
  case (err f fd)
  have "reads_from s0 s' sc' acc"
    by (rule reads_from_cong [OF reads_from_mono [OF open_call_map_le [OF err(8)] inv]])
       (simp add: err)
  with err first show ?thesis
    by simp
next
  case ign
  with inv first show ?thesis
    by (simp add: is_redirection_def)
next
  case push
  have "reads_from s0 s' sc' acc"
    by (rule reads_from_cong) (use inv push in simp_all)
  with push first show ?thesis
    by (simp add: is_redirection_def)
qed

lemma parseSimpleCommands_reads_from:
  "parseSimpleCommands E ts command sc s = (Inr (command', sc', rest), s')
     \<Longrightarrow> simpleCommands command = [] \<Longrightarrow> std_open s \<Longrightarrow> fdtab s0 \<subseteq>\<^sub>m fdtab s
     \<Longrightarrow> reads_from s0 s sc acc
     \<Longrightarrow> reads_from s0 s' (hd (simpleCommands command' @ [sc'])) (first_input_target E acc ts)"
proof (induction E ts command sc s arbitrary: acc rule: parseSimpleCommands.induct)
  case (1 E command sc s)
  then show ?case by simp
next
  case (2 E t ts command sc s)
  show ?case
  proof (cases "IS_CHAINING_OPERATOR E t")
    case True
    with "2.prems" show ?thesis by auto
  next
    case False
    with "2.prems"(1) obtain c1 sc1 r1 s1 where
      step: "parseStep E t ts command sc s = (Inr (c1, sc1, r1), s1)" and
      loop: "parseSimpleCommands E r1 c1 sc1 s1 = (Inr (command', sc', rest), s')"
      by (auto split: prod.splits sum.splits)
    note le1 = parseStep_map_le [OF step]
    have std1: "std_open s1"
      by (rule std_open_mono [OF le1 "2.prems"(3)])
    have le01: "fdtab s0 \<subseteq>\<^sub>m fdtab s1"
      by (rule map_le_trans [OF "2.prems"(4) le1])
    note r1 = parseStep_reads_from [OF step "2.prems"(2,3,4,5)]
    show ?thesis
    proof (cases "IS_PIPE E t")
      case True
      with r1 have ne: "simpleCommands c1 \<noteq> []"
        and rd: "reads_from s0 s1 (hd (simpleCommands c1)) acc"
        by simp_all
      from parseSimpleCommands_hd [OF loop ne]
      have "hd (simpleCommands command' @ [sc']) = hd (simpleCommands c1)"
        by simp
      moreover have "reads_from s0 s' (hd (simpleCommands c1)) acc"
        by (rule reads_from_mono [OF parseSimpleCommands_map_le [OF loop] rd])
      ultimately show ?thesis
        using True False by simp
    next
      case np: False
      with r1 have e: "simpleCommands c1 = []"
        and rd: "reads_from s0 s1 sc1
                  (if \<not> IS_FILE_OUT_REDIR E t \<and> IS_FILE_IN_REDIR E t
                   then fst (fileNameToken E ts) else acc)"
        by simp_all
      note IH = "2.IH" [OF False step [symmetric] refl refl refl loop e std1 le01 rd]
      from IH parseStep_rest [OF step] False np show ?thesis
        by (auto simp: is_redirection_def split: if_splits)
    qed
  qed
qed

text \<open>
  Claim C1. Let the parser accept a token sequence as a chain of one pipeline, with
  the standard streams open, and let a word follow the last pipe operator of the
  sequence (with no pipe operator: let the sequence hold a word), so that no pipe
  is left dangling. With \<open>N\<close> the number of pipe operators of the sequence, the
  pipeline has exactly \<open>N + 1\<close> stages; every stage but the last writes to the write
  end of a pipe whose read end is the input descriptor of the next stage; the input
  of the first stage is the default unless an input redirection in that stage names
  a file, and is then a new descriptor on that file, opened for reading; the output
  of the last stage is the default unless an output redirection in that stage names
  a file, and is then a new descriptor on that file, opened in the mode of the
  operator.
\<close>

theorem single_pipeline_stages_and_pipes:
  assumes "parseTokens E tokens s = (Inr [c], s')" and "std_open s"
      and "word_after_last_pipe E False tokens"
  shows "length (simpleCommands c) = pipe_operators E tokens + 1
       \<and> (\<forall>i. Suc i < length (simpleCommands c) \<longrightarrow>
              linked s' (simpleCommands c ! i) (simpleCommands c ! Suc i))
       \<and> (case first_input_target E None tokens of
             None \<Rightarrow> inputFD (hd (simpleCommands c)) = STDIN_FD
           | Some f \<Rightarrow>
               inputFD (hd (simpleCommands c)) \<noteq> STDIN_FD
               \<and> fdtab s (inputFD (hd (simpleCommands c))) = None
               \<and> fdtab s' (inputFD (hd (simpleCommands c))) = Some (File f RdOnly))
       \<and> (case last_output_target E None tokens of
             None \<Rightarrow> outputFD (last (simpleCommands c)) = STDOUT_FD
           | Some (f, mode) \<Rightarrow>
               outputFD (last (simpleCommands c)) \<noteq> STDOUT_FD
               \<and> fdtab s (outputFD (last (simpleCommands c))) = None
               \<and> fdtab s' (outputFD (last (simpleCommands c))) = Some (File f mode))"
proof -
  from parseTokens_single [OF assms(1)] obtain command sc rest where
    inner: "parseSimpleCommands E tokens initCommand initSimpleCommand s = (Inr (command, sc, rest), s')" and
    c: "c = closeCommand E command sc rest"
    by blast
  have init: "parse_inv s initCommand initSimpleCommand"
    using assms(2)
    by (simp add: parse_inv_def initCommand_def input_default_or_file_def
        output_default_or_file_def initSimpleCommand_def unnamed_iff)
  from parseSimpleCommands_inv [OF inner init] assms(3)
  obtain name where name: "commandName sc = Some name"
    by (auto simp: initSimpleCommand_def)
  let ?last = "sc\<lparr>execute := Some (getExecutionFunction name)\<rparr>"
  from name have stages: "simpleCommands c = simpleCommands command @ [?last]"
    by (simp add: c simpleCommands_closeCommand)
  note shape = parsed_pipeline_shape [OF assms(1,2)]
  have r0: "reads_from s s initSimpleCommand None"
    by (simp add: reads_from_def initSimpleCommand_def)
  have w0: "writes_to s s initSimpleCommand None"
    by (simp add: writes_to_def initSimpleCommand_def)
  have e: "simpleCommands initCommand = []"
    by (simp add: initCommand_def)
  have "reads_from s s' (hd (simpleCommands command @ [sc])) (first_input_target E None tokens)"
    by (rule parseSimpleCommands_reads_from [OF inner e assms(2) map_le_refl r0])
  then have "reads_from s s' (hd (simpleCommands c)) (first_input_target E None tokens)"
    unfolding stages by (rule reads_from_cong) (cases "simpleCommands command"; simp)
  then have rd: "case first_input_target E None tokens of
             None \<Rightarrow> inputFD (hd (simpleCommands c)) = STDIN_FD
           | Some f \<Rightarrow>
               inputFD (hd (simpleCommands c)) \<noteq> STDIN_FD
               \<and> fdtab s (inputFD (hd (simpleCommands c))) = None
               \<and> fdtab s' (inputFD (hd (simpleCommands c))) = Some (File f RdOnly)"
    by (simp add: reads_from_def)
  have "writes_to s s' sc (last_output_target E None tokens)"
    by (rule parseSimpleCommands_writes_to [OF inner assms(2) map_le_refl w0])
  then have "writes_to s s' (last (simpleCommands c)) (last_output_target E None tokens)"
    unfolding stages by (rule writes_to_cong) simp
  then have wr: "case last_output_target E None tokens of
             None \<Rightarrow> outputFD (last (simpleCommands c)) = STDOUT_FD
           | Some (f, mode) \<Rightarrow>
               outputFD (last (simpleCommands c)) \<noteq> STDOUT_FD
               \<and> fdtab s (outputFD (last (simpleCommands c))) = None
               \<and> fdtab s' (outputFD (last (simpleCommands c))) = Some (File f mode)"
    by (simp add: writes_to_def)
  from shape assms(3) rd wr show ?thesis
    by simp
qed

text \<open>
  The line \<^verbatim>\<open>cat < in.txt | wc >> out\<close>: one pipe operator, two stages; \<^verbatim>\<open>cat\<close>
  reads \<^verbatim>\<open>in.txt\<close> on descriptor 3 and writes to the pipe on 5, \<^verbatim>\<open>wc\<close> reads the
  pipe on 4 and appends to \<^verbatim>\<open>out\<close> on 6.
\<close>

theorem single_pipeline_stages_and_pipes_witness:
  "parseTokens sample_env [''cat'', ''<'', ''in.txt'', ''|'', ''wc'', ''>>'', ''out''] sample_os =
     (Inr [\<lparr>simpleCommands = [sample_stage ''cat'' 3 5, sample_stage ''wc'' 4 6],
            background = False, chainingOperator = None\<rparr>],
      snd (parseTokens sample_env [''cat'', ''<'', ''in.txt'', ''|'', ''wc'', ''>>'', ''out''] sample_os))
   \<and> std_open sample_os
   \<and> word_after_last_pipe sample_env False [''cat'', ''<'', ''in.txt'', ''|'', ''wc'', ''>>'', ''out'']
   \<and> pipe_operators sample_env [''cat'', ''<'', ''in.txt'', ''|'', ''wc'', ''>>'', ''out''] = 1
   \<and> first_input_target sample_env None [''cat'', ''<'', ''in.txt'', ''|'', ''wc'', ''>>'', ''out'']
       = Some ''in.txt''
   \<and> last_output_target sample_env None [''cat'', ''<'', ''in.txt'', ''|'', ''wc'', ''>>'', ''out'']
       = Some (''out'', WrCreatAppend)
   \<and> linked (snd (parseTokens sample_env [''cat'', ''<'', ''in.txt'', ''|'', ''wc'', ''>>'', ''out''] sample_os))
        (sample_stage ''cat'' 3 5) (sample_stage ''wc'' 4 6)
   \<and> fdtab sample_os 3 = None
   \<and> fdtab (snd (parseTokens sample_env [''cat'', ''<'', ''in.txt'', ''|'', ''wc'', ''>>'', ''out''] sample_os)) 3
       = Some (File ''in.txt'' RdOnly)
   \<and> fdtab sample_os 6 = None
   \<and> fdtab (snd (parseTokens sample_env [''cat'', ''<'', ''in.txt'', ''|'', ''wc'', ''>>'', ''out''] sample_os)) 6
       = Some (File ''out'' WrCreatAppend)
   \<and> fdtab (snd (parseTokens sample_env [''cat'', ''<'', ''in.txt'', ''|'', ''wc'', ''>>'', ''out''] sample_os)) 5
       = Some (PipeWrite 0)
   \<and> fdtab (snd (parseTokens sample_env [''cat'', ''<'', ''in.txt'', ''|'', ''wc'', ''>>'', ''out''] sample_os)) 4
       = Some (PipeRead 0)"
proof -
  let ?T = "[''cat'', ''<'', ''in.txt'', ''|'', ''wc'', ''>>'', ''out'']"
  let ?a = "sample_stage ''cat'' 3 5"
  let ?b = "sample_stage ''wc'' 4 6"
  let ?c = "\<lparr>simpleCommands = [?a, ?b], background = False, chainingOperator = None\<rparr>"
  let ?S = "snd (parseTokens sample_env ?T sample_os)"
  have "fst (parseTokens sample_env ?T sample_os) = Inr [?c]"
    by (simp add: sample_defs parse_defs)
  then have p: "parseTokens sample_env ?T sample_os = (Inr [?c], ?S)"
    by (metis prod.collapse)
  have o: "std_open sample_os"
    by (simp add: std_open_def sample_os_def std_fd_defs)
  have v: "word_after_last_pipe sample_env False ?T"
    by (simp add: sample_env_def is_redirection_def fileNameToken_def)
  have n: "pipe_operators sample_env ?T = 1"
    by (simp add: sample_env_def is_redirection_def fileNameToken_def)
  have i: "first_input_target sample_env None ?T = Some ''in.txt''"
    by (simp add: sample_env_def fileNameToken_def)
  have u: "last_output_target sample_env None ?T = Some (''out'', WrCreatAppend)"
    by (simp add: sample_env_def fileNameToken_def)
  have fa: "inputFD ?a = 3" "outputFD ?b = 6"
    by (simp_all add: sample_stage_def)
  have pw: "fdtab ?S 5 = Some (PipeWrite 0)" "fdtab ?S 4 = Some (PipeRead 0)"
    by (simp_all add: sample_defs parse_defs)
  note T = single_pipeline_stages_and_pipes [OF p o v]
  from T have "linked ?S ([?a, ?b] ! 0) ([?a, ?b] ! Suc 0)"
    by simp
  then have l: "linked ?S ?a ?b"
    by simp
  from T i fa have r: "fdtab sample_os 3 = None \<and> fdtab ?S 3 = Some (File ''in.txt'' RdOnly)"
    by simp
  from T u fa have w: "fdtab sample_os 6 = None \<and> fdtab ?S 6 = Some (File ''out'' WrCreatAppend)"
    by simp
  from p o v n i u l r w pw show ?thesis
    by blast
qed

text \<open>
  A pipe left dangling is outside the claim. The parser's branch that would reject
  a stage without a name at the end of the tokens cannot be reached, since the loop
  condition excludes the \<^verbatim>\<open>NULL\<close> token; so the line \<^verbatim>\<open>ls |\<close> is accepted, and
  the stage after the pipe is dropped.
\<close>

lemma dangling_pipe_accepted:
  "fst (parseTokens sample_env [''ls'', ''|''] sample_os) =
     Inr [\<lparr>simpleCommands = [sample_stage ''ls'' 0 4], background = False,
           chainingOperator = None\<rparr>]
   \<and> pipe_operators sample_env [''ls'', ''|''] = 1
   \<and> \<not> word_after_last_pipe sample_env False [''ls'', ''|'']"
  by (simp add: sample_defs parse_defs is_redirection_def)

section \<open>Terminators, background pipelines and the deferred wait\<close>

lemma parseSimpleCommands_rest:
  "parseSimpleCommands E ts command sc s = (Inr (command', sc', rest), s')
     \<Longrightarrow> rest = to_terminator E ts"
proof (induction E ts command sc s rule: parseSimpleCommands.induct)
  case (1 E command sc s)
  then show ?case by simp
next
  case (2 E t ts command sc s)
  show ?case
  proof (cases "IS_CHAINING_OPERATOR E t")
    case True
    with "2.prems" show ?thesis by auto
  next
    case False
    with "2.prems" obtain c1 sc1 r1 s1 where
      step: "parseStep E t ts command sc s = (Inr (c1, sc1, r1), s1)" and
      loop: "parseSimpleCommands E r1 c1 sc1 s1 = (Inr (command', sc', rest), s')"
      by (auto split: prod.splits sum.splits)
    from "2.IH" [OF False step [symmetric] refl refl refl loop] parseStep_rest [OF step] False
    show ?thesis
      by (simp split: if_splits)
  qed
qed

lemma parseStep_noWait:
  assumes "parseStep E t ts command sc s = (Inr (command', sc', rest), s')"
      and "\<forall>st\<in>set (simpleCommands command). noWait st = 0" and "noWait sc = 0"
  shows "(\<forall>st\<in>set (simpleCommands command'). noWait st = 0) \<and> noWait sc' = 0"
  using assms(1)
  by (cases rule: parseStep_success_cases)
     (use assms(2,3) in \<open>auto simp: addSimpleCommand_def initSimpleCommand_def\<close>)

lemma parseSimpleCommands_noWait:
  "parseSimpleCommands E ts command sc s = (Inr (command', sc', rest), s')
     \<Longrightarrow> \<forall>st\<in>set (simpleCommands command). noWait st = 0 \<Longrightarrow> noWait sc = 0
     \<Longrightarrow> (\<forall>st\<in>set (simpleCommands command'). noWait st = 0) \<and> noWait sc' = 0"
proof (induction E ts command sc s rule: parseSimpleCommands.induct)
  case (1 E command sc s)
  then show ?case by simp
next
  case (2 E t ts command sc s)
  show ?case
  proof (cases "IS_CHAINING_OPERATOR E t")
    case True
    with "2.prems" show ?thesis by auto
  next
    case False
    with "2.prems"(1) obtain c1 sc1 r1 s1 where
      step: "parseStep E t ts command sc s = (Inr (c1, sc1, r1), s1)" and
      loop: "parseSimpleCommands E r1 c1 sc1 s1 = (Inr (command', sc', rest), s')"
      by (auto split: prod.splits sum.splits)
    from parseStep_noWait [OF step "2.prems"(2,3)]
    have n: "\<forall>st\<in>set (simpleCommands c1). noWait st = 0" "noWait sc1 = 0"
      by simp_all
    show ?thesis
      by (rule "2.IH" [OF False step [symmetric] refl refl refl loop n])
  qed
qed

lemma closeCommand_noWait:
  assumes "\<forall>st\<in>set (simpleCommands command). noWait st = 0" and "noWait sc = 0"
  shows "\<forall>st\<in>set (simpleCommands (closeCommand E command sc rest)). noWait st = 0"
  using assms by (auto simp: simpleCommands_closeCommand split: option.splits)

lemma parseTokens_loop_terminators:
  "parseTokens_loop E ts chain s = (Inr chain', s')
     \<Longrightarrow> map chainingOperator chain' = map chainingOperator chain @ terminators E ts
       \<and> map background chain' = map background chain @ map (background_of E) (terminators E ts)
       \<and> ((\<forall>c\<in>set chain. \<forall>st\<in>set (simpleCommands c). noWait st = 0)
            \<longrightarrow> (\<forall>c\<in>set chain'. \<forall>st\<in>set (simpleCommands c). noWait st = 0))"
proof (induction E ts chain s rule: parseTokens_loop.induct)
  case (1 E chain s)
  then show ?case by simp
next
  case (2 E t ts chain s)
  from "2.prems"(1) obtain command sc rest s1 where
    inner: "parseSimpleCommands E (t # ts) initCommand initSimpleCommand s = (Inr (command, sc, rest), s1)" and
    outer: "parseTokens_loop E (case rest of [] \<Rightarrow> [] | _ # r \<Rightarrow> r)
              (snd (addCommandToChain chain (closeCommand E command sc rest))) s1 = (Inr chain', s')"
    by (auto split: prod.splits sum.splits simp del: parseSimpleCommands.simps)
  let ?c = "closeCommand E command sc rest"
  note IH = "2.IH" [OF inner [symmetric] refl refl refl outer]
  have rest: "rest = to_terminator E (t # ts)"
    by (rule parseSimpleCommands_rest [OF inner])
  from parseSimpleCommands_frame [OF inner] have bg: "\<not> background command"
    by (simp add: initCommand_def)
  have unmarked: "\<forall>st\<in>set (simpleCommands ?c). noWait st = 0"
  proof (rule closeCommand_noWait)
    from parseSimpleCommands_noWait [OF inner]
    show "\<forall>st\<in>set (simpleCommands command). noWait st = 0" and "noWait sc = 0"
      by (simp_all add: initCommand_def initSimpleCommand_def)
  qed
  show ?case
  proof (cases rest)
    case Nil
    with rest have "to_terminator E (t # ts) = []"
      by simp
    then have t: "terminators E (t # ts) = [None]"
      by (simp del: to_terminator.simps)
    from Nil bg have "chainingOperator ?c = None" "background ?c = background_of E None"
      by (simp_all add: closeCommand_fields background_of_def)
    with IH Nil t unmarked show ?thesis
      by (auto simp: addCommandToChain_def)
  next
    case (Cons opr r)
    with rest have "to_terminator E (t # ts) = opr # r"
      by simp
    then have t: "terminators E (t # ts) = Some opr # terminators E r"
      by (simp del: to_terminator.simps)
    from Cons bg have "chainingOperator ?c = Some opr" "background ?c = background_of E (Some opr)"
      by (simp_all add: closeCommand_fields background_of_def)
    with IH Cons t unmarked show ?thesis
      by (auto simp: addCommandToChain_def)
  qed
qed

lemma executeCommand_reaches:
  assumes "simpleCommands c = pre @ sc # post"
      and "executeSimpleCommands run (background c) pre w = Return (0, w1)"
      and "commandName sc \<noteq> None"
  shows "executeCommand run c w =
           (case run (if background c then sc\<lparr>noWait := 1\<rparr> else sc) w1 of
              Return (status, w2) \<Rightarrow>
                if status \<noteq> 0 then Return (status, w2)
                else executeSimpleCommands run (background c) post (closeDescriptors sc w2)
            | Exited n \<Rightarrow> Exited n
            | Segfault \<Rightarrow> Segfault
            | OutOfFuel \<Rightarrow> OutOfFuel)"
proof -
  have "executeCommand run c w = executeSimpleCommands run (background c) (pre @ sc # post) w"
    using assms(1) by (simp add: executeCommand_def)
  also have "\<dots> = executeSimpleCommands run (background c) (sc # post) w1"
    by (rule executeSimpleCommands_append [OF assms(2)])
  also from assms(3) have "\<dots> =
           (case run (if background c then sc\<lparr>noWait := 1\<rparr> else sc) w1 of
              Return (status, w2) \<Rightarrow>
                if status \<noteq> 0 then Return (status, w2)
                else executeSimpleCommands run (background c) post (closeDescriptors sc w2)
            | Exited n \<Rightarrow> Exited n
            | Segfault \<Rightarrow> Segfault
            | OutOfFuel \<Rightarrow> OutOfFuel)"
    by (auto simp: Let_def split: outcome.splits)
  finally show ?thesis .
qed

text \<open>
  Claim C7, as the code has it. The chaining-operator records of the pipelines of a
  parsed chain are, in order, the terminators of the token sequence (no record for
  the end of the sequence), and the background flag of a pipeline is set exactly
  when its terminator is the background marker. The parser marks no stage: every
  \<^verbatim>\<open>noWait\<close> is 0 in the chain it returns. The mark is set by \<^verbatim>\<open>executeCommand\<close>,
  stage by stage: when the stages before a stage have all reported 0, the stage is
  handed to its runner, marked \<^verbatim>\<open>noWait\<close> if the pipeline is a background one and
  as it is otherwise; after a status other than 0 no further stage is marked or
  run. \<^verbatim>\<open>executeProcess\<close> does not wait for the child of a marked stage and waits
  for that of an unmarked one.
\<close>

theorem terminators_recorded_stages_marked_when_run:
  assumes "parseTokens E tokens s = (Inr chain, s')"
  shows "map chainingOperator chain = terminators E tokens
       \<and> map background chain = map (background_of E) (terminators E tokens)
       \<and> (\<forall>c\<in>set chain. \<forall>st\<in>set (simpleCommands c). noWait st = 0)
       \<and> (simpleCommands c = pre @ sc # post
            \<and> executeSimpleCommands run (background c) pre w = Return (0, w1)
            \<and> commandName sc \<noteq> None
          \<longrightarrow> executeCommand run c w =
                (case run (if background c then sc\<lparr>noWait := 1\<rparr> else sc) w1 of
                   Return (status, w2) \<Rightarrow>
                     if status \<noteq> 0 then Return (status, w2)
                     else executeSimpleCommands run (background c) post (closeDescriptors sc w2)
                 | Exited n \<Rightarrow> Exited n
                 | Segfault \<Rightarrow> Segfault
                 | OutOfFuel \<Rightarrow> OutOfFuel))
       \<and> executeProcess E (st\<lparr>noWait := 1\<rparr>) v =
           (case fork_exec E (st\<lparr>noWait := 1\<rparr>) v of
              (None, v1) \<Rightarrow> Return (-1, v1)
            | (Some child, v1) \<Rightarrow> Return (0, v1))
       \<and> executeProcess E (st\<lparr>noWait := 0\<rparr>) v =
           (case fork_exec E (st\<lparr>noWait := 0\<rparr>) v of
              (None, v1) \<Rightarrow> Return (-1, v1)
            | (Some child, v1) \<Rightarrow>
                (case waitpid_status E (st\<lparr>noWait := 0\<rparr>) child v1 of
                   (None, v2) \<Rightarrow> Return (-1, v2)
                 | (Some status, v2) \<Rightarrow> Return (status, v2)))"
proof -
  from assms have "parseTokens_loop E tokens [] s = (Inr chain, s')"
    by (simp add: parseTokens_def initCommandChain_def)
  from parseTokens_loop_terminators [OF this]
  have parsed: "map chainingOperator chain = terminators E tokens"
    "map background chain = map (background_of E) (terminators E tokens)"
    "\<forall>c\<in>set chain. \<forall>st\<in>set (simpleCommands c). noWait st = 0"
    by simp_all
  have reach: "simpleCommands c = pre @ sc # post
            \<and> executeSimpleCommands run (background c) pre w = Return (0, w1)
            \<and> commandName sc \<noteq> None
          \<longrightarrow> executeCommand run c w =
                (case run (if background c then sc\<lparr>noWait := 1\<rparr> else sc) w1 of
                   Return (status, w2) \<Rightarrow>
                     if status \<noteq> 0 then Return (status, w2)
                     else executeSimpleCommands run (background c) post (closeDescriptors sc w2)
                 | Exited n \<Rightarrow> Exited n
                 | Segfault \<Rightarrow> Segfault
                 | OutOfFuel \<Rightarrow> OutOfFuel)"
    using executeCommand_reaches [of c pre sc post run w w1] by blast
  have p1: "executeProcess E (st\<lparr>noWait := 1\<rparr>) v =
           (case fork_exec E (st\<lparr>noWait := 1\<rparr>) v of
              (None, v1) \<Rightarrow> Return (-1, v1)
            | (Some child, v1) \<Rightarrow> Return (0, v1))"
    by (simp add: executeProcess_def split: prod.splits option.splits)
  have p0: "executeProcess E (st\<lparr>noWait := 0\<rparr>) v =
           (case fork_exec E (st\<lparr>noWait := 0\<rparr>) v of
              (None, v1) \<Rightarrow> Return (-1, v1)
            | (Some child, v1) \<Rightarrow>
                (case waitpid_status E (st\<lparr>noWait := 0\<rparr>) child v1 of
                   (None, v2) \<Rightarrow> Return (-1, v2)
                 | (Some status, v2) \<Rightarrow> Return (status, v2)))"
    by (simp add: executeProcess_def split: prod.splits option.splits)
  from parsed reach p1 p0 show ?thesis
    by blast
qed

text \<open>
  The line \<^verbatim>\<open>ls | wc &\<close> after parsing: the background flag is set and no stage is
  marked. The line \<^verbatim>\<open>history 99 | wc &\<close> with an empty history: the first stage
  reports \<open>-1\<close>, and \<^verbatim>\<open>wc\<close> is never handed to a runner (it would write its name).
\<close>

theorem no_stage_marked_by_parser:
  "map_option (map (\<lambda>c. (background c, map noWait (simpleCommands c))))
      (chain_pointer (fst (parseTokens sample_env [''ls'', ''|'', ''wc'', ''&''] sample_os)))
     = Some [(True, [0, 0])]
   \<and> map_option (\<lambda>(status, w). (status, map snd (written w)))
        (returned (runLine 1 sample_env [''history'', ''99'', ''|'', ''wc'', ''&''] (sample_world [])))
     = Some (-1, [''history: invalid index'' @ [CHR 0x0A]])"
  by (simp add: sample_defs parse_defs exec_defs)

theorem terminators_recorded_stages_marked_when_run_witness:
  "parseTokens sample_env [''ls'', ''|'', ''wc'', ''&'', ''date''] sample_os =
     (Inr [\<lparr>simpleCommands = [sample_stage ''ls'' 0 4, sample_stage ''wc'' 3 1],
             background = True, chainingOperator = Some ''&''\<rparr>,
           \<lparr>simpleCommands = [sample_stage ''date'' 0 1],
             background = False, chainingOperator = None\<rparr>],
      snd (parseTokens sample_env [''ls'', ''|'', ''wc'', ''&'', ''date''] sample_os))
   \<and> terminators sample_env [''ls'', ''|'', ''wc'', ''&'', ''date''] = [Some ''&'', None]
   \<and> map (background_of sample_env) [Some ''&'', None] = [True, False]
   \<and> noWait (sample_stage ''ls'' 0 4) = 0 \<and> noWait (sample_stage ''wc'' 3 1) = 0
   \<and> executeSimpleCommands (run_stage 1 sample_env) True [sample_stage ''ls'' 0 4] (sample_world [])
       = Return (0, closeDescriptors (sample_stage ''ls'' 0 4) (emit ''ls'' (sample_world [])))
   \<and> commandName (sample_stage ''wc'' 3 1) \<noteq> None
   \<and> run_stage 1 sample_env ((sample_stage ''wc'' 3 1)\<lparr>noWait := 1\<rparr>)
        (closeDescriptors (sample_stage ''ls'' 0 4) (emit ''ls'' (sample_world [])))
       = Return (0, emit ''wc'' (closeDescriptors (sample_stage ''ls'' 0 4) (emit ''ls'' (sample_world []))))
   \<and> executeCommand (run_stage 1 sample_env)
        \<lparr>simpleCommands = [sample_stage ''ls'' 0 4, sample_stage ''wc'' 3 1],
         background = True, chainingOperator = Some ''&''\<rparr> (sample_world [])
       = Return (0, closeDescriptors (sample_stage ''wc'' 3 1)
                      (emit ''wc'' (closeDescriptors (sample_stage ''ls'' 0 4) (emit ''ls'' (sample_world [])))))"
proof -
  let ?tokens = "[''ls'', ''|'', ''wc'', ''&'', ''date'']"
  let ?a = "sample_stage ''ls'' 0 4" and ?b = "sample_stage ''wc'' 3 1"
  let ?c = "\<lparr>simpleCommands = [?a, ?b], background = True, chainingOperator = Some ''&''\<rparr>"
  let ?d = "\<lparr>simpleCommands = [sample_stage ''date'' 0 1],
             background = False, chainingOperator = None\<rparr>"
  let ?R = "run_stage 1 sample_env"
  let ?w1 = "closeDescriptors ?a (emit ''ls'' (sample_world []))"
  have "fst (parseTokens sample_env ?tokens sample_os) = Inr [?c, ?d]"
    by (simp add: sample_defs parse_defs)
  then have p: "parseTokens sample_env ?tokens sample_os =
                  (Inr [?c, ?d], snd (parseTokens sample_env ?tokens sample_os))"
    by (metis prod.collapse)
  note T = terminators_recorded_stages_marked_when_run [OF p,
      where c = ?c and pre = "[?a]" and sc = ?b and post = "[]" and run = ?R
        and w = "sample_world []" and ?w1.0 = ?w1]
  from T have t1: "terminators sample_env ?tokens = [Some ''&'', None]"
    by simp
  from T t1 have t2: "map (background_of sample_env) [Some ''&'', None] = [True, False]"
    by simp
  from T have t3: "noWait ?a = 0 \<and> noWait ?b = 0"
    by simp
  have h1: "executeSimpleCommands ?R True [?a] (sample_world []) = Return (0, ?w1)"
    by (simp add: sample_defs parse_defs exec_defs)
  have h2: "commandName ?b \<noteq> None"
    by (simp add: sample_defs parse_defs)
  have h3: "?R (?b\<lparr>noWait := 1\<rparr>) ?w1 = Return (0, emit ''wc'' ?w1)"
    by (simp add: sample_defs parse_defs exec_defs)
  from T h1 h2 h3 have t4: "executeCommand ?R ?c (sample_world [])
       = Return (0, closeDescriptors ?b (emit ''wc'' ?w1))"
    by simp
  from p t1 t2 t3 h1 h2 h3 t4 show ?thesis
    by blast
qed

section \<open>The parser: pipelines without stages\<close>

lemma parseStep_ignorable:
  "ignorable E t \<Longrightarrow> parseStep E t ts command sc s = (Inr (command, sc, ts), s)"
  by (simp add: parseStep_def ignorable_def)

lemma parseSimpleCommands_ignorable_prefix:
  "\<forall>t\<in>set pre. ignorable E t
     \<Longrightarrow> parseSimpleCommands E (pre @ rest) command sc s = parseSimpleCommands E rest command sc s"
proof (induction pre)
  case Nil
  show ?case by simp
next
  case (Cons t pre)
  then have "\<not> IS_CHAINING_OPERATOR E t"
    by (simp add: ignorable_def)
  with Cons show ?case
    by (simp add: parseStep_ignorable)
qed

lemma closeCommand_unnamed:
  "closeCommand E initCommand initSimpleCommand (opr # rest) =
     \<lparr>simpleCommands = [], background = IS_BACKGROUND E opr, chainingOperator = Some opr\<rparr>"
  by (simp add: closeCommand_def initCommand_def initSimpleCommand_def COPY_def Let_def)

lemma parseTokens_loop_ignorable_segment:
  assumes "\<forall>t\<in>set pre. ignorable E t" and "IS_CHAINING_OPERATOR E opr"
  shows "parseTokens_loop E (pre @ opr # rest) chain s =
           parseTokens_loop E rest
             (chain @ [\<lparr>simpleCommands = [], background = IS_BACKGROUND E opr,
                        chainingOperator = Some opr\<rparr>]) s"
proof -
  have "parseSimpleCommands E (pre @ opr # rest) initCommand initSimpleCommand s =
          parseSimpleCommands E (opr # rest) initCommand initSimpleCommand s"
    using assms(1) by (rule parseSimpleCommands_ignorable_prefix)
  with assms(2) have inner:
    "parseSimpleCommands E (pre @ opr # rest) initCommand initSimpleCommand s =
       (Inr (initCommand, initSimpleCommand, opr # rest), s)"
    by simp
  obtain t ts where split: "pre @ opr # rest = t # ts"
    by (cases pre) auto
  from inner show ?thesis
    unfolding split
    by (simp add: closeCommand_unnamed addCommandToChain_def del: parseSimpleCommands.simps)
qed

lemma parseStep_stages_named:
  assumes "parseStep E t ts command sc s = (Inr (command', sc', rest), s')"
      and "stages_named command"
  shows "stages_named command'"
  using assms
  by (cases rule: parseStep_success_cases)
     (auto simp: stages_named_def addSimpleCommand_def)

lemma parseSimpleCommands_stages_named:
  "parseSimpleCommands E ts command sc s = (Inr (command', sc', rest), s')
     \<Longrightarrow> stages_named command \<Longrightarrow> stages_named command'"
proof (induction E ts command sc s rule: parseSimpleCommands.induct)
  case (1 E command sc s)
  then show ?case by simp
next
  case (2 E t ts command sc s)
  show ?case
  proof (cases "IS_CHAINING_OPERATOR E t")
    case True
    with "2.prems" show ?thesis by auto
  next
    case False
    with "2.prems"(1) obtain c1 sc1 r1 s1 where
      step: "parseStep E t ts command sc s = (Inr (c1, sc1, r1), s1)" and
      loop: "parseSimpleCommands E r1 c1 sc1 s1 = (Inr (command', sc', rest), s')"
      by (auto split: prod.splits sum.splits)
    from parseStep_stages_named [OF step "2.prems"(2)]
    have "stages_named c1" .
    with "2.IH" [OF False step [symmetric] refl refl refl loop]
    show ?thesis .
  qed
qed

lemma closeCommand_stages_named:
  "stages_named command \<Longrightarrow> stages_named (closeCommand E command sc rest)"
  by (auto simp: stages_named_def simpleCommands_closeCommand split: option.splits)

lemma parseTokens_loop_stages_named:
  "parseTokens_loop E ts chain s = (Inr chain', s')
     \<Longrightarrow> \<forall>c\<in>set chain. stages_named c \<Longrightarrow> \<forall>c\<in>set chain'. stages_named c"
proof (induction E ts chain s rule: parseTokens_loop.induct)
  case (1 E chain s)
  then show ?case by simp
next
  case (2 E t ts chain s)
  from "2.prems"(1) obtain command sc rest s1 where
    inner: "parseSimpleCommands E (t # ts) initCommand initSimpleCommand s = (Inr (command, sc, rest), s1)" and
    outer: "parseTokens_loop E (case rest of [] \<Rightarrow> [] | _ # r \<Rightarrow> r)
              (snd (addCommandToChain chain (closeCommand E command sc rest))) s1 = (Inr chain', s')"
    by (auto split: prod.splits sum.splits simp del: parseSimpleCommands.simps)
  have "stages_named initCommand"
    by (simp add: stages_named_def initCommand_def)
  from parseSimpleCommands_stages_named [OF inner this]
  have "stages_named (closeCommand E command sc rest)"
    by (rule closeCommand_stages_named)
  with "2.prems"(2)
  have "\<forall>c\<in>set (snd (addCommandToChain chain (closeCommand E command sc rest))). stages_named c"
    by (simp add: addCommandToChain_def)
  from "2.IH" [OF inner [symmetric] refl refl refl outer this]
  show ?case .
qed

lemma empty_chain_only_for_no_tokens:
  "(fst (parseTokens E tokens s) = Inr []) = (tokens = [])"
proof
  assume "fst (parseTokens E tokens s) = Inr []"
  then obtain s' where "parseTokens_loop E tokens [] s = (Inr [], s')"
    by (cases "parseTokens E tokens s") (simp add: parseTokens_def initCommandChain_def)
  from parseTokens_loop_extends [OF this] show "tokens = []"
    by simp
next
  assume "tokens = []"
  then show "fst (parseTokens E tokens s) = Inr []"
    by (simp add: parseTokens_def initCommandChain_def)
qed

text \<open>
  Claim C4, as the code has it. The parser returns the empty chain for the empty
  token sequence and for no other. A pipeline of a returned chain can be without
  stages: tokens that are all ignorable (there may be none) and the chaining
  operator that closes them are parsed, without error, into a pipeline that has no
  stage and records the operator, with the background flag set when the operator is
  the background marker; the parse goes on after the operator. Every stage that a
  pipeline of a returned chain does have, has a program name. The engine reports
  status \<open>-1\<close> for a pipeline without stages and runs nothing.
\<close>

theorem ignorable_tokens_closed_by_operator:
  assumes "\<forall>t\<in>set pre. ignorable E t" and "IS_CHAINING_OPERATOR E opr"
  shows "(fst (parseTokens E tokens s) = Inr []) = (tokens = [])
       \<and> parseTokens E [] s = (Inr [], s)
       \<and> parseTokens E (pre @ [opr]) s =
           (Inr [\<lparr>simpleCommands = [], background = IS_BACKGROUND E opr,
                  chainingOperator = Some opr\<rparr>], s)
       \<and> parseTokens_loop E (pre @ opr # rest) chain s =
           parseTokens_loop E rest
             (chain @ [\<lparr>simpleCommands = [], background = IS_BACKGROUND E opr,
                        chainingOperator = Some opr\<rparr>]) s
       \<and> (parseTokens E line s = (Inr parsed, s') \<longrightarrow>
            (\<forall>c\<in>set parsed. \<forall>st\<in>set (simpleCommands c). commandName st \<noteq> None))
       \<and> (simpleCommands command = [] \<longrightarrow> executeCommand run command w = Return (-1, w))"
proof (intro conjI impI)
  show "(fst (parseTokens E tokens s) = Inr []) = (tokens = [])"
    by (rule empty_chain_only_for_no_tokens)
next
  show "parseTokens E [] s = (Inr [], s)"
    by (simp add: parseTokens_def initCommandChain_def)
next
  from parseTokens_loop_ignorable_segment [OF assms, of "[]" "[]" s]
  show "parseTokens E (pre @ [opr]) s =
           (Inr [\<lparr>simpleCommands = [], background = IS_BACKGROUND E opr,
                  chainingOperator = Some opr\<rparr>], s)"
    by (simp add: parseTokens_def initCommandChain_def)
next
  show "parseTokens_loop E (pre @ opr # rest) chain s =
           parseTokens_loop E rest
             (chain @ [\<lparr>simpleCommands = [], background = IS_BACKGROUND E opr,
                        chainingOperator = Some opr\<rparr>]) s"
    using assms by (rule parseTokens_loop_ignorable_segment)
next
  assume "parseTokens E line s = (Inr parsed, s')"
  then have "parseTokens_loop E line [] s = (Inr parsed, s')"
    by (simp add: parseTokens_def initCommandChain_def)
  from parseTokens_loop_stages_named [OF this]
  show "\<forall>c\<in>set parsed. \<forall>st\<in>set (simpleCommands c). commandName st \<noteq> None"
    by (simp add: stages_named_def)
next
  assume "simpleCommands command = []"
  then show "executeCommand run command w = Return (-1, w)"
    by (simp add: executeCommand_def)
qed

text \<open>
  The lines \<^verbatim>\<open> ;\<close> and \<^verbatim>\<open> &\<close>, a blank token and a chaining operator: each is
  parsed into a chain of one pipeline, which has no stage. So is the first pipeline
  of \<^verbatim>\<open> ; ls\<close>. Running the first line gives status \<open>-1\<close>.
\<close>

theorem operator_after_blank_gives_pipeline_without_stage:
  "fst (parseTokens sample_env ['''', '';''] sample_os) =
     Inr [\<lparr>simpleCommands = [], background = False, chainingOperator = Some '';''\<rparr>]
   \<and> fst (parseTokens sample_env ['''', ''&''] sample_os) =
     Inr [\<lparr>simpleCommands = [], background = True, chainingOperator = Some ''&''\<rparr>]
   \<and> fst (parseTokens sample_env ['''', '';'', ''ls''] sample_os) =
     Inr [\<lparr>simpleCommands = [], background = False, chainingOperator = Some '';''\<rparr>,
          \<lparr>simpleCommands = [sample_stage ''ls'' 0 1], background = False,
            chainingOperator = None\<rparr>]
   \<and> returned (runLine 1 sample_env ['''', '';''] (sample_world [])) = Some (- 1, sample_world [])"
  by (simp add: sample_defs parse_defs exec_defs)

theorem ignorable_tokens_closed_by_operator_witness:
  "ignorable sample_env '''' \<and> IS_CHAINING_OPERATOR sample_env ''&''
   \<and> parseTokens sample_env ['''', '''', ''&''] sample_os =
       (Inr [\<lparr>simpleCommands = [], background = True, chainingOperator = Some ''&''\<rparr>],
        sample_os)
   \<and> parseTokens_loop sample_env ['''', '''', ''&'', ''ls''] [] sample_os =
       parseTokens_loop sample_env [''ls'']
         [\<lparr>simpleCommands = [], background = True, chainingOperator = Some ''&''\<rparr>] sample_os
   \<and> parseTokens sample_env [''ls'', ''|'', ''wc'', '';'', '';''] sample_os =
       (Inr [\<lparr>simpleCommands = [sample_stage ''ls'' 0 4, sample_stage ''wc'' 3 1],
               background = False, chainingOperator = Some '';''\<rparr>,
             \<lparr>simpleCommands = [], background = False, chainingOperator = Some '';''\<rparr>],
        sample_os\<lparr>fdtab := (fdtab sample_os)(3 \<mapsto> PipeRead 0, 4 \<mapsto> PipeWrite 0),
                   npipes := 1\<rparr>)
   \<and> commandName (sample_stage ''ls'' 0 4) \<noteq> None
   \<and> commandName (sample_stage ''wc'' 3 1) \<noteq> None
   \<and> executeCommand (run_stage 1 sample_env)
        \<lparr>simpleCommands = [], background = True, chainingOperator = Some ''&''\<rparr>
        (sample_world []) = Return (- 1, sample_world [])"
proof -
  let ?E = sample_env
  let ?c = "\<lparr>simpleCommands = [], background = True, chainingOperator = Some ''&''\<rparr>"
  let ?line = "[''ls'', ''|'', ''wc'', '';'', '';'']"
  let ?parsed = "[\<lparr>simpleCommands = [sample_stage ''ls'' 0 4, sample_stage ''wc'' 3 1],
                  background = False, chainingOperator = Some '';''\<rparr>,
                \<lparr>simpleCommands = [], background = False, chainingOperator = Some '';''\<rparr>]"
  let ?s' = "sample_os\<lparr>fdtab := (fdtab sample_os)(3 \<mapsto> PipeRead 0, 4 \<mapsto> PipeWrite 0),
                   npipes := 1\<rparr>"
  have i: "ignorable ?E ''''"
    by (simp add: ignorable_def sample_env_def)
  then have h1: "\<forall>t\<in>set ['''', '''']. ignorable ?E t"
    by simp
  have h2: "IS_CHAINING_OPERATOR ?E ''&''"
    by (simp add: sample_env_def)
  have bg: "IS_BACKGROUND ?E ''&''"
    by (simp add: sample_env_def)
  have p: "parseTokens ?E ?line sample_os = (Inr ?parsed, ?s')"
    by (simp add: sample_defs parse_defs)
  have e: "simpleCommands ?c = []"
    by simp
  note T = ignorable_tokens_closed_by_operator [OF h1 h2,
      where rest = "[''ls'']" and chain = "[]" and s = sample_os and line = ?line
        and parsed = ?parsed and s' = ?s' and command = ?c and run = "run_stage 1 sample_env"
        and w = "sample_world []"]
  from T [THEN conjunct2, THEN conjunct2, THEN conjunct1] bg
  have c1: "parseTokens ?E ['''', '''', ''&''] sample_os = (Inr [?c], sample_os)"
    by simp
  from T [THEN conjunct2, THEN conjunct2, THEN conjunct2, THEN conjunct1] bg
  have c2: "parseTokens_loop ?E ['''', '''', ''&'', ''ls''] [] sample_os =
       parseTokens_loop ?E [''ls''] [?c] sample_os"
    by simp
  from T [THEN conjunct2, THEN conjunct2, THEN conjunct2, THEN conjunct2, THEN conjunct1] p
  have c3: "commandName (sample_stage ''ls'' 0 4) \<noteq> None"
    "commandName (sample_stage ''wc'' 3 1) \<noteq> None"
    by simp_all
  from T [THEN conjunct2, THEN conjunct2, THEN conjunct2, THEN conjunct2, THEN conjunct2] e
  have c4: "executeCommand (run_stage 1 sample_env) ?c (sample_world []) = Return (- 1, sample_world [])"
    by blast
  from i h2 c1 c2 p c3 c4 show ?thesis
    by blast
qed

end
